theory Spec2Isabelle
  imports Complex_Main
begin

section \<open>Map point series and candlestick shape: data model\<close>

text \<open>
  The development embeds two classes of the charting library:
  \<^item> \<open>MapPointSeries\<close> (\<open>charts/map/MapPointSeries.ts\<close>): creation of the bullets of a data
    item (\<open>_makeBullets\<close>) and their placement (\<open>_positionBullet\<close>, \<open>_positionBulletReal\<close>);
  \<^item> \<open>Candlestick\<close> (\<open>charts/xy/series/Candlestick.ts\<close>): \<open>_beforeChanged\<close> and \<open>_draw\<close>.

  JavaScript numbers are written as reals. The only arithmetic of the two classes is
  \<open>positionOnLine - 0.002\<close> and \<open>positionOnLine + 0.002\<close>; every other number is passed on
  unchanged, and nothing below depends on rounding. An optional setting is an \<open>option\<close>:
  \<open>None\<close> is JavaScript's \<open>undefined\<close>. \<open>NaN\<close>, which \<open>$type.isNumber\<close> rejects like
  \<open>undefined\<close>, is not a value of the model.
\<close>

type_synonym coordinates = "real \<times> real"
  \<comment> \<open>a GeoJSON position \<open>[longitude, latitude]\<close>\<close>

type_synonym IPoint = "real \<times> real"
  \<comment> \<open>a screen point \<open>{x, y}\<close>\<close>

record IGeoPoint =
  geo_longitude :: real
  geo_latitude :: real

datatype Geometry = Point coordinates | MultiPoint "coordinates list"
  \<comment> \<open>\<open>geometry?: GeoJSON.Point | GeoJSON.MultiPoint\<close>\<close>

text \<open>
  The collaborators of the sibling series. A \<open>MapLine\<close> is used through
  \<open>positionToGeoPoint\<close> only and a \<open>MapPolygon\<close> through \<open>visualCentroid\<close> only; both are
  outside the two files, so they are fields holding whatever the collaborator answers.
\<close>

record MapLine =
  positionToGeoPoint :: "real \<Rightarrow> IGeoPoint"

record MapPolygon =
  visualCentroid :: IGeoPoint

record LineDataItem =
  mapLine :: "MapLine option"

record PolygonDataItem =
  mapPolygon :: "MapPolygon option"

text \<open>The settings of \<open>IMapPointSeriesDataItem\<close>, under the names of the source.\<close>

record DataItem =
  geometry :: "Geometry option"
  longitude :: "real option"
  latitude :: "real option"
  positionOnLine :: "real option"
  autoRotate :: "bool option"
  autoRotateAngle :: "real option"
  lineDataItem :: "LineDataItem option"
  lineId :: "string option"
  polygonDataItem :: "PolygonDataItem option"
  polygonId :: "string option"

text \<open>
  A sprite, with the attributes that placement writes (\<open>x\<close>, \<open>y\<close>, \<open>rotation\<close>, the private
  \<open>visible\<close>) and its \<open>dataItem\<close>. The data item is held by value: where the source
  writes through the reference \<open>sprite.dataItem\<close>, the model writes the new data item
  back into the sprite.
\<close>

record Sprite =
  sprite_x :: "real option"
  sprite_y :: "real option"
  sprite_rotation :: "real option"
  sprite_visible :: "bool option"
  dataItem :: "DataItem option"

record Bullet =
  sprite :: "Sprite option"
  bullet_index :: "nat option"
    \<comment> \<open>\<open>bullet._index\<close>\<close>

text \<open>
  The series of the chart. \<open>series.isType("MapLineSeries")\<close> and
  \<open>series.isType("MapPolygonSeries")\<close> tell the three kinds apart; a series of either
  kind answers \<open>getDataItemById\<close>.
\<close>

datatype Series =
    MapLineSeries "string \<Rightarrow> LineDataItem option"
  | MapPolygonSeries "string \<Rightarrow> PolygonDataItem option"
  | OtherSeries

record MapChart =
  series :: "Series list"
  projection :: "coordinates \<Rightarrow> (real \<times> real) option"
    \<comment> \<open>\<open>chart.get("projection")!\<close>; \<open>None\<close> is the \<open>undefined\<close> result of a coordinate
        that has no image\<close>
  geoPath :: "Geometry \<Rightarrow> bool"
    \<comment> \<open>the truth value of \<open>chart.getPrivate("geoPath")(geometry)\<close>\<close>
  convert :: "IGeoPoint \<Rightarrow> IPoint"

record MapPointSeries =
  chart :: "MapChart option"
  clipFront :: "bool option"
  clipBack :: "bool option"
  bullets :: "(DataItem \<Rightarrow> Bullet) list"
    \<comment> \<open>the registered bullet functions\<close>

datatype error = TypeError
  \<comment> \<open>reading a setting of an \<open>undefined\<close> data item\<close>

datatype Scan = LineScan string | PolygonScan string
  \<comment> \<open>one pass of \<open>chart.series.each\<close>, for a line or a polygon identifier\<close>

section \<open>Helpers of the core library\<close>

definition isNumber :: "real option \<Rightarrow> bool" where
  "isNumber v = (case v of None \<Rightarrow> False | Some _ \<Rightarrow> True)"

definition truthy :: "bool option \<Rightarrow> bool" where
  "truthy v = (case v of None \<Rightarrow> False | Some b \<Rightarrow> b)"

definition truthyString :: "string option \<Rightarrow> bool" where
  \<comment> \<open>the empty string is falsy\<close>
  "truthyString v = (case v of None \<Rightarrow> False | Some s \<Rightarrow> s \<noteq> [])"

definition getOr :: "'a option \<Rightarrow> 'a \<Rightarrow> 'a" where
  \<comment> \<open>\<open>get(key, fallback)\<close>\<close>
  "getOr v fallback = (case v of None \<Rightarrow> fallback | Some a \<Rightarrow> a)"

definition each :: "'a list \<Rightarrow> ('a \<Rightarrow> 's \<Rightarrow> 's) \<Rightarrow> 's \<Rightarrow> 's" where
  \<comment> \<open>\<open>List.each\<close> and \<open>$array.each\<close>: the callback runs on every element, in order; the
      state \<open>'s\<close> is what the callback assigns. \<open>_makeBullets\<close> relies on this when it
      counts the coordinates with a callback that returns nothing.\<close>
  "each xs f s = fold f xs s"

section \<open>MapPointSeries: placement\<close>

text \<open>
  \<open>_positionBulletReal\<close> (lines 285-317). The data item read for the rotation is
  \<open>sprite.dataItem\<close>.
\<close>

definition positionBulletReal :: "MapPointSeries \<Rightarrow> Sprite \<Rightarrow> Geometry \<Rightarrow> coordinates \<Rightarrow> Sprite" where
  "positionBulletReal this sp geom coords =
     (case chart this of
        None \<Rightarrow> sp
      | Some ch \<Rightarrow>
          let sp1 = (case projection ch coords of
                       Some xy \<Rightarrow> sp\<lparr>sprite_x := Some (fst xy), sprite_y := Some (snd xy)\<rparr>
                     | None \<Rightarrow> sp);
              visible = (if geoPath ch geom
                         then (if truthy (clipFront this) then False else True)
                         else (if truthy (clipBack this) then False else True));
              sp2 = sp1\<lparr>sprite_visible := Some visible\<rparr>
          in (case dataItem sp2 of
                None \<Rightarrow> sp2
              | Some di \<Rightarrow>
                  if truthy (autoRotate di)
                  then sp2\<lparr>sprite_rotation := Some (getOr (autoRotateAngle di) 0)\<rparr>
                  else sp2))"

text \<open>The callback of the line scan (lines 208-216) and the one of the polygon scan (230-238).\<close>

fun lineCallback :: "string \<Rightarrow> Series \<Rightarrow> DataItem \<times> MapLine option \<Rightarrow> DataItem \<times> MapLine option" where
  "lineCallback lid (MapLineSeries getDataItemById) (di, line) =
     (case getDataItemById lid of
        Some lineDI \<Rightarrow> (di\<lparr>lineDataItem := Some lineDI\<rparr>, mapLine lineDI)
      | None \<Rightarrow> (di, line))"
| "lineCallback lid (MapPolygonSeries getDataItemById) (di, line) = (di, line)"
| "lineCallback lid OtherSeries (di, line) = (di, line)"

fun polygonCallback :: "string \<Rightarrow> Series \<Rightarrow> DataItem \<times> MapPolygon option \<Rightarrow> DataItem \<times> MapPolygon option" where
  "polygonCallback pid (MapPolygonSeries getDataItemById) (di, polygon) =
     (case getDataItemById pid of
        Some polygonDI \<Rightarrow> (di\<lparr>polygonDataItem := Some polygonDI\<rparr>, mapPolygon polygonDI)
      | None \<Rightarrow> (di, polygon))"
| "polygonCallback pid (MapLineSeries getDataItemById) (di, polygon) = (di, polygon)"
| "polygonCallback pid OtherSeries (di, polygon) = (di, polygon)"

text \<open>
  Lines 198-218: the line of the data item, from \<open>lineDataItem\<close> or by a scan for
  \<open>lineId\<close>. The result is the data item, the local \<open>line\<close> and the scans made so far.
\<close>

definition resolveLine :: "MapChart option \<Rightarrow> DataItem \<Rightarrow> Scan list \<Rightarrow> DataItem \<times> MapLine option \<times> Scan list" where
  "resolveLine cho di scans =
     (case lineDataItem di of
        Some ldi \<Rightarrow> (di, mapLine ldi, scans)
      | None \<Rightarrow>
          (case cho of
             Some ch \<Rightarrow>
               if truthyString (lineId di)
               then (let r = each (series ch) (lineCallback (the (lineId di))) (di, None)
                     in (fst r, snd r, scans @ [LineScan (the (lineId di))]))
               else (di, None, scans)
           | None \<Rightarrow> (di, None, scans)))"

text \<open>Lines 221-240: the same for the polygon.\<close>

definition resolvePolygon :: "MapChart option \<Rightarrow> DataItem \<Rightarrow> Scan list \<Rightarrow> DataItem \<times> MapPolygon option \<times> Scan list" where
  "resolvePolygon cho di scans =
     (case polygonDataItem di of
        Some pdi \<Rightarrow> (di, mapPolygon pdi, scans)
      | None \<Rightarrow>
          (case cho of
             Some ch \<Rightarrow>
               if truthyString (polygonId di)
               then (let r = each (series ch) (polygonCallback (the (polygonId di))) (di, None)
                     in (fst r, snd r, scans @ [PolygonScan (the (polygonId di))]))
               else (di, None, scans)
           | None \<Rightarrow> (di, None, scans)))"

definition geoCoordinates :: "IGeoPoint \<Rightarrow> coordinates" where
  \<comment> \<open>\<open>[geoPoint.longitude, geoPoint.latitude]\<close>\<close>
  "geoCoordinates g = (geo_longitude g, geo_latitude g)"

definition coordinateAt :: "coordinates list \<Rightarrow> nat \<Rightarrow> coordinates option" where
  \<comment> \<open>\<open>geometry.coordinates[index]\<close>: \<open>undefined\<close> past the end of the array\<close>
  "coordinateAt cs i = (if i < length cs then Some (cs ! i) else None)"

text \<open>
  Lines 242-281, after the two resolutions: the choice of the coordinate and the call
  of \<open>_positionBulletReal\<close>. \<open>getAngle\<close> is \<open>$math.getAngle\<close>, which is outside the two
  files and is a parameter. The sprite returned holds the data item as the code leaves it.
\<close>

definition placeSprite ::
  "(IPoint \<Rightarrow> IPoint \<Rightarrow> real) \<Rightarrow> MapPointSeries \<Rightarrow> nat option \<Rightarrow> Sprite \<Rightarrow> DataItem \<Rightarrow>
     MapLine option \<Rightarrow> MapPolygon option \<Rightarrow> Sprite" where
  "placeSprite getAngle this idx sp di line polygon =
     (case polygon of
        Some pg \<Rightarrow>
          (let coords = geoCoordinates (visualCentroid pg)
           in positionBulletReal this (sp\<lparr>dataItem := Some di\<rparr>) (Point coords) coords)
      | None \<Rightarrow>
          if line \<noteq> None \<and> isNumber (positionOnLine di)
          then (let ln = the line;
                    p = the (positionOnLine di);
                    coords = geoCoordinates (positionToGeoPoint ln p);
                    di' = (case chart this of
                             Some ch \<Rightarrow>
                               if truthy (autoRotate di)
                               then (let geoPoint0 = positionToGeoPoint ln (p - 0.002);
                                         geoPoint1 = positionToGeoPoint ln (p + 0.002);
                                         point0 = convert ch geoPoint0;
                                         point1 = convert ch geoPoint1
                                     in di\<lparr>autoRotateAngle := Some (getAngle point0 point1)\<rparr>)
                               else di
                           | None \<Rightarrow> di)
                in positionBulletReal this (sp\<lparr>dataItem := Some di'\<rparr>) (Point coords) coords)
          else if isNumber (longitude di) \<and> isNumber (latitude di)
          then (let coords = (the (longitude di), the (latitude di))
                in positionBulletReal this (sp\<lparr>dataItem := Some di\<rparr>) (Point coords) coords)
          else (case geometry di of
                  None \<Rightarrow> sp\<lparr>dataItem := Some di\<rparr>
                | Some (Point c) \<Rightarrow> positionBulletReal this (sp\<lparr>dataItem := Some di\<rparr>) (Point c) c
                | Some (MultiPoint cs) \<Rightarrow>
                    (let index = getOr idx 0
                     in (case coordinateAt cs index of
                           Some coords \<Rightarrow>
                             positionBulletReal this (sp\<lparr>dataItem := Some di\<rparr>) (Point coords) coords
                         | None \<Rightarrow> sp\<lparr>dataItem := Some di\<rparr>))))"

text \<open>
  \<open>_positionBullet\<close> (lines 191-283). A bullet without a sprite is left alone; a sprite
  without a data item makes \<open>dataItem.get("latitude")\<close> throw.
\<close>

definition positionBullet ::
  "(IPoint \<Rightarrow> IPoint \<Rightarrow> real) \<Rightarrow> MapPointSeries \<Rightarrow> Bullet \<Rightarrow> Scan list \<Rightarrow> error + (Bullet \<times> Scan list)" where
  "positionBullet getAngle this bullet scans =
     (case sprite bullet of
        None \<Rightarrow> Inr (bullet, scans)
      | Some sp \<Rightarrow>
          (case dataItem sp of
             None \<Rightarrow> Inl TypeError
           | Some di \<Rightarrow>
               (let (di1, line, scans1) = resolveLine (chart this) di scans;
                    (di2, polygon, scans2) = resolvePolygon (chart this) di1 scans1;
                    sp' = placeSprite getAngle this (bullet_index bullet) sp di2 line polygon
                in Inr (bullet\<lparr>sprite := Some sp'\<rparr>, scans2))))"

section \<open>MapPointSeries: placement with the re-placement a changed setting triggers\<close>

text \<open>
  \<open>positionBullet\<close> above is one pass through the method, in which \<open>dataItem.set\<close> only
  writes. In the library a write that changes a setting of a data item marks the data item
  dirty, and the series answers at once: \<open>_markDirtyValues(dataItem)\<close> (lines 153-159) calls
  \<open>_positionBullets(dataItem)\<close>, which positions every bullet of \<open>dataItem.bullets\<close>, the
  one being positioned included. The three writes of \<open>_positionBullet\<close> (lines 212, 234 and
  260) therefore call \<open>_positionBullet\<close> again before the method goes on.

  The state is the data item, its bullets and the scans made. A bullet is named by its
  place in \<open>dataItem.bullets\<close>; the sprite of each of them has the data item of the state as
  its \<open>dataItem\<close> (the one set when the bullet was made), so the field \<open>dataItem\<close> of these
  sprites is only a copy taken when the sprite is written.
\<close>

record World =
  entry :: DataItem
  entryBullets :: "Bullet list"
    \<comment> \<open>\<open>dataItem.bullets\<close>\<close>
  scanLog :: "Scan list"

text \<open>
  Modelled from the spec: \<open>set\<close> of the data item, which belongs to the core and is outside
  the two files. The data item is "mutated whenever placement-relevant fields change
  (triggers re-placement, not re-creation)": a write that changes the data item marks it
  dirty, which is the call \<open>markDirty\<close>; a write of the value already there does nothing.
  Two data items of a sibling series are the same object when they are equal.
\<close>

definition setEntry :: "(World \<Rightarrow> World option) \<Rightarrow> (DataItem \<Rightarrow> DataItem) \<Rightarrow> World \<Rightarrow> World option" where
  "setEntry markDirty write w =
     (if write (entry w) = entry w then Some w
      else markDirty (w\<lparr>entry := write (entry w)\<rparr>))"

text \<open>
  The callbacks of the two scans, lines 208-216 and 230-238. The state of the scan is
  \<open>None\<close> once a nested call has run out of calls (see \<open>positionBulletAt\<close>).
\<close>

fun lineCallbackAt ::
  "(World \<Rightarrow> World option) \<Rightarrow> string \<Rightarrow> Series \<Rightarrow> (World \<times> MapLine option) option \<Rightarrow>
     (World \<times> MapLine option) option" where
  "lineCallbackAt markDirty lid s None = None"
| "lineCallbackAt markDirty lid (MapLineSeries getDataItemById) (Some (w, line)) =
     (case getDataItemById lid of
        Some lineDI \<Rightarrow>
          (case setEntry markDirty (\<lambda>di. di\<lparr>lineDataItem := Some lineDI\<rparr>) w of
             None \<Rightarrow> None
           | Some w' \<Rightarrow> Some (w', mapLine lineDI))
      | None \<Rightarrow> Some (w, line))"
| "lineCallbackAt markDirty lid (MapPolygonSeries getDataItemById) (Some (w, line)) = Some (w, line)"
| "lineCallbackAt markDirty lid OtherSeries (Some (w, line)) = Some (w, line)"

fun polygonCallbackAt ::
  "(World \<Rightarrow> World option) \<Rightarrow> string \<Rightarrow> Series \<Rightarrow> (World \<times> MapPolygon option) option \<Rightarrow>
     (World \<times> MapPolygon option) option" where
  "polygonCallbackAt markDirty pid s None = None"
| "polygonCallbackAt markDirty pid (MapPolygonSeries getDataItemById) (Some (w, polygon)) =
     (case getDataItemById pid of
        Some polygonDI \<Rightarrow>
          (case setEntry markDirty (\<lambda>di. di\<lparr>polygonDataItem := Some polygonDI\<rparr>) w of
             None \<Rightarrow> None
           | Some w' \<Rightarrow> Some (w', mapPolygon polygonDI))
      | None \<Rightarrow> Some (w, polygon))"
| "polygonCallbackAt markDirty pid (MapLineSeries getDataItemById) (Some (w, polygon)) = Some (w, polygon)"
| "polygonCallbackAt markDirty pid OtherSeries (Some (w, polygon)) = Some (w, polygon)"

text \<open>Lines 198-218 and 221-240. A scan is entered in the log when it starts.\<close>

definition resolveLineAt ::
  "(World \<Rightarrow> World option) \<Rightarrow> MapChart option \<Rightarrow> World \<Rightarrow> (World \<times> MapLine option) option" where
  "resolveLineAt markDirty cho w =
     (case lineDataItem (entry w) of
        Some ldi \<Rightarrow> Some (w, mapLine ldi)
      | None \<Rightarrow>
          (case cho of
             Some ch \<Rightarrow>
               if truthyString (lineId (entry w))
               then each (series ch) (lineCallbackAt markDirty (the (lineId (entry w))))
                      (Some (w\<lparr>scanLog := scanLog w @ [LineScan (the (lineId (entry w)))]\<rparr>, None))
               else Some (w, None)
           | None \<Rightarrow> Some (w, None)))"

definition resolvePolygonAt ::
  "(World \<Rightarrow> World option) \<Rightarrow> MapChart option \<Rightarrow> World \<Rightarrow> (World \<times> MapPolygon option) option" where
  "resolvePolygonAt markDirty cho w =
     (case polygonDataItem (entry w) of
        Some pdi \<Rightarrow> Some (w, mapPolygon pdi)
      | None \<Rightarrow>
          (case cho of
             Some ch \<Rightarrow>
               if truthyString (polygonId (entry w))
               then each (series ch) (polygonCallbackAt markDirty (the (polygonId (entry w))))
                      (Some (w\<lparr>scanLog := scanLog w @ [PolygonScan (the (polygonId (entry w)))]\<rparr>, None))
               else Some (w, None)
           | None \<Rightarrow> Some (w, None)))"

text \<open>\<open>this._positionBulletReal(sprite, geometry, coordinates)\<close> for the sprite of bullet \<open>k\<close>.\<close>

definition positionBulletRealAt :: "MapPointSeries \<Rightarrow> nat \<Rightarrow> Geometry \<Rightarrow> coordinates \<Rightarrow> World \<Rightarrow> World" where
  "positionBulletRealAt this k geom coords w =
     (case sprite (entryBullets w ! k) of
        None \<Rightarrow> w
      | Some sp \<Rightarrow>
          w\<lparr>entryBullets := (entryBullets w)
               [k := (entryBullets w ! k)
                  \<lparr>sprite := Some (positionBulletReal this (sp\<lparr>dataItem := Some (entry w)\<rparr>) geom coords)\<rparr>]\<rparr>)"

text \<open>Lines 242-281: the choice of the coordinate, the write of the angle, the placement.\<close>

definition placeAt ::
  "(World \<Rightarrow> World option) \<Rightarrow> (IPoint \<Rightarrow> IPoint \<Rightarrow> real) \<Rightarrow> MapPointSeries \<Rightarrow> nat \<Rightarrow>
     MapLine option \<Rightarrow> MapPolygon option \<Rightarrow> World \<Rightarrow> World option" where
  "placeAt markDirty getAngle this k line polygon w =
     (case polygon of
        Some pg \<Rightarrow>
          (let coords = geoCoordinates (visualCentroid pg)
           in Some (positionBulletRealAt this k (Point coords) coords w))
      | None \<Rightarrow>
          if line \<noteq> None \<and> isNumber (positionOnLine (entry w))
          then (let ln = the line;
                    p = the (positionOnLine (entry w));
                    coords = geoCoordinates (positionToGeoPoint ln p)
                in (case (case chart this of
                            Some ch \<Rightarrow>
                              if truthy (autoRotate (entry w))
                              then (let geoPoint0 = positionToGeoPoint ln (p - 0.002);
                                        geoPoint1 = positionToGeoPoint ln (p + 0.002);
                                        point0 = convert ch geoPoint0;
                                        point1 = convert ch geoPoint1
                                    in setEntry markDirty
                                         (\<lambda>di. di\<lparr>autoRotateAngle := Some (getAngle point0 point1)\<rparr>) w)
                              else Some w
                          | None \<Rightarrow> Some w) of
                      None \<Rightarrow> None
                    | Some w' \<Rightarrow> Some (positionBulletRealAt this k (Point coords) coords w')))
          else if isNumber (longitude (entry w)) \<and> isNumber (latitude (entry w))
          then (let coords = (the (longitude (entry w)), the (latitude (entry w)))
                in Some (positionBulletRealAt this k (Point coords) coords w))
          else (case geometry (entry w) of
                  None \<Rightarrow> Some w
                | Some (Point c) \<Rightarrow> Some (positionBulletRealAt this k (Point c) c w)
                | Some (MultiPoint cs) \<Rightarrow>
                    (let index = getOr (bullet_index (entryBullets w ! k)) 0
                     in (case coordinateAt cs index of
                           Some coords \<Rightarrow> Some (positionBulletRealAt this k (Point coords) coords w)
                         | None \<Rightarrow> Some w))))"

text \<open>
  \<open>_positionBullet\<close> (lines 191-283) for bullet \<open>k\<close>, given what a changed setting calls. A
  place past the end of \<open>dataItem.bullets\<close> names no bullet.
\<close>

definition positionBulletStep ::
  "(World \<Rightarrow> World option) \<Rightarrow> (IPoint \<Rightarrow> IPoint \<Rightarrow> real) \<Rightarrow> MapPointSeries \<Rightarrow> nat \<Rightarrow> World \<Rightarrow>
     World option" where
  "positionBulletStep markDirty getAngle this k w =
     (if length (entryBullets w) \<le> k then Some w
      else (case sprite (entryBullets w ! k) of
              None \<Rightarrow> Some w
            | Some sp \<Rightarrow>
                (case resolveLineAt markDirty (chart this) w of
                   None \<Rightarrow> None
                 | Some (w1, line) \<Rightarrow>
                     (case resolvePolygonAt markDirty (chart this) w1 of
                        None \<Rightarrow> None
                      | Some (w2, polygon) \<Rightarrow> placeAt markDirty getAngle this k line polygon w2))))"

text \<open>
  Modelled from the spec: \<open>_positionBullets\<close> of the parent class, outside the two files:
  "placement is re-invoked whenever the entry's relevant fields change", for each bullet of
  \<open>dataItem.bullets\<close> in turn.
\<close>

definition positionBullets :: "(nat \<Rightarrow> World \<Rightarrow> World option) \<Rightarrow> World \<Rightarrow> World option" where
  "positionBullets positionOne w =
     each [0 ..< length (entryBullets w)]
       (\<lambda>k r. case r of None \<Rightarrow> None | Some w' \<Rightarrow> positionOne k w')
       (Some w)"

text \<open>
  \<open>_markDirtyValues\<close> (lines 153-159). \<open>super._markDirtyValues()\<close> marks the series for the
  next frame and touches nothing of the state; the data item is the one of the state.
\<close>

definition markDirtyValues :: "(nat \<Rightarrow> World \<Rightarrow> World option) \<Rightarrow> World \<Rightarrow> World option" where
  "markDirtyValues positionOne w = positionBullets positionOne w"

text \<open>
  \<open>_positionBullet\<close> with its nested calls. The first argument bounds the depth of the
  calls; the result is \<open>None\<close> when the bound is reached. Four levels are always enough:
  see \<open>positionBulletAt_returns\<close>.
\<close>

primrec positionBulletAt ::
  "nat \<Rightarrow> (IPoint \<Rightarrow> IPoint \<Rightarrow> real) \<Rightarrow> MapPointSeries \<Rightarrow> nat \<Rightarrow> World \<Rightarrow> World option" where
  "positionBulletAt 0 getAngle this k w = None"
| "positionBulletAt (Suc n) getAngle this k w =
     positionBulletStep (markDirtyValues (positionBulletAt n getAngle this)) getAngle this k w"

section \<open>MapPointSeries: creation of the bullets\<close>

text \<open>
  Modelled from the spec: \<open>_makeBullet\<close> of the parent class \<open>MapSeries\<close>, which is outside
  the two files. The marker factory "produces a visual marker instance per invocation;
  caller assigns it an index when created for multi-point membership", and the marker is
  "bound" to its entry: the bullet function is called once, the bullet gets the index it
  is given (none for a call without index), its sprite gets the data item, and the bullet
  is pushed on \<open>dataItem.bullets\<close>.
\<close>

definition boundBullet :: "DataItem \<Rightarrow> (DataItem \<Rightarrow> Bullet) \<Rightarrow> nat option \<Rightarrow> Bullet" where
  "boundBullet di bulletFunction idx =
     (let bullet = bulletFunction di
      in bullet\<lparr>sprite := map_option (\<lambda>sp. sp\<lparr>dataItem := Some di\<rparr>) (sprite bullet),
                bullet_index := idx\<rparr>)"

definition makeBullet :: "DataItem \<Rightarrow> (DataItem \<Rightarrow> Bullet) \<Rightarrow> nat option \<Rightarrow> Bullet list \<Rightarrow> Bullet list" where
  "makeBullet di bulletFunction idx bs = bs @ [boundBullet di bulletFunction idx]"

text \<open>
  \<open>_makeBullets\<close> (lines 170-189); the result is the new \<open>dataItem.bullets\<close>, which starts
  empty. The condition of the second branch is the assignment
  \<open>geometry.type = "MultiPoint"\<close>, which is truthy: the branch is taken by every geometry
  that is not a \<open>Point\<close>, and on the declared type \<open>Point | MultiPoint\<close> the assignment
  changes nothing. The counter \<open>i\<close> lives in the state of the inner \<open>each\<close>.
\<close>

definition makeBullets :: "MapPointSeries \<Rightarrow> DataItem \<Rightarrow> Bullet list" where
  "makeBullets this di =
     each (bullets this)
       (\<lambda>bulletFunction bs.
          case geometry di of
            None \<Rightarrow> bs
          | Some (Point c) \<Rightarrow> makeBullet di bulletFunction None bs
          | Some (MultiPoint cs) \<Rightarrow>
              snd (each cs (\<lambda>_ (i, bs'). (i + 1, makeBullet di bulletFunction (Some i) bs')) (0, bs)))
       []"

section \<open>Candlestick\<close>

text \<open>
  The shape: its numeric settings by key, the table of dirty keys read by \<open>isDirty\<close>, the
  flag \<open>_clear\<close> and the path drawn on \<open>_display\<close>, as the list of drawing calls made.
\<close>

datatype DrawCall = MoveTo real real | LineTo real real | ArcTo real real real real real | ClosePath

record Candlestick =
  settings :: "string \<Rightarrow> real option"
  dirty :: "string \<Rightarrow> bool"
  clear :: bool
  display :: "DrawCall list"

definition isDirty :: "Candlestick \<Rightarrow> string \<Rightarrow> bool" where
  "isDirty this key = dirty this key"

definition get :: "Candlestick \<Rightarrow> string \<Rightarrow> real \<Rightarrow> real" where
  "get this key fallback = getOr (settings this key) fallback"

definition moveTo :: "real \<Rightarrow> real \<Rightarrow> Candlestick \<Rightarrow> Candlestick" where
  "moveTo x y this = this\<lparr>display := display this @ [MoveTo x y]\<rparr>"

definition lineTo :: "real \<Rightarrow> real \<Rightarrow> Candlestick \<Rightarrow> Candlestick" where
  "lineTo x y this = this\<lparr>display := display this @ [LineTo x y]\<rparr>"

text \<open>
  \<open>_beforeChanged\<close> (lines 59-65). \<open>super._beforeChanged()\<close> belongs to
  \<open>RoundedRectangle\<close>, outside the two files: it is the parameter \<open>super_beforeChanged\<close>,
  and the dirty keys are read on the shape as it leaves it.
\<close>

definition beforeChanged :: "(Candlestick \<Rightarrow> Candlestick) \<Rightarrow> Candlestick \<Rightarrow> Candlestick" where
  "beforeChanged super_beforeChanged this0 =
     (let this = super_beforeChanged this0
      in if isDirty this ''lowX0'' \<or> isDirty this ''lowY0'' \<or> isDirty this ''lowX1''
            \<or> isDirty this ''lowY1'' \<or> isDirty this ''highX0'' \<or> isDirty this ''highX1''
            \<or> isDirty this ''highY0'' \<or> isDirty this ''highY1''
         then this\<lparr>clear := True\<rparr>
         else this)"

text \<open>\<open>_draw\<close> (lines 67-77); \<open>super._draw()\<close> is the parameter \<open>super_draw\<close>.\<close>

definition draw :: "(Candlestick \<Rightarrow> Candlestick) \<Rightarrow> Candlestick \<Rightarrow> Candlestick" where
  "draw super_draw this0 =
     (let this = super_draw this0;
          this = moveTo (get this ''lowX0'' 0) (get this ''lowY0'' 0) this;
          this = lineTo (get this ''lowX1'' 0) (get this ''lowY1'' 0) this;
          this = moveTo (get this ''highX0'' 0) (get this ''highY0'' 0) this;
          this = lineTo (get this ''highX1'' 0) (get this ''highY1'' 0) this
      in this)"

definition wickKeys :: "string list" where
  "wickKeys = [''lowX0'', ''lowY0'', ''lowX1'', ''lowY1'', ''highX0'', ''highY0'', ''highX1'', ''highY1'']"

section \<open>Notions used in the statements\<close>

text \<open>What a call of \<open>_positionBullet\<close> leaves: the sprite of the bullet, its data item, the scans.\<close>

definition markerOf :: "error + (Bullet \<times> Scan list) \<Rightarrow> Sprite option" where
  "markerOf r = (case r of Inl _ \<Rightarrow> None | Inr (b, _) \<Rightarrow> sprite b)"

definition entryOf :: "error + (Bullet \<times> Scan list) \<Rightarrow> DataItem option" where
  "entryOf r = (case markerOf r of None \<Rightarrow> None | Some sp \<Rightarrow> dataItem sp)"

definition scansOf :: "error + (Bullet \<times> Scan list) \<Rightarrow> Scan list option" where
  "scansOf r = (case r of Inl _ \<Rightarrow> None | Inr (_, scans) \<Rightarrow> Some scans)"

definition position :: "Sprite \<Rightarrow> real option \<times> real option" where
  "position sp = (sprite_x sp, sprite_y sp)"

definition projected :: "MapChart \<Rightarrow> coordinates \<Rightarrow> Sprite \<Rightarrow> real option \<times> real option" where
  \<comment> \<open>the position of a sprite once the projection of a coordinate is written to it: the
      image of the coordinate, or the position the sprite had when there is no image\<close>
  "projected ch c sp =
     (case projection ch c of Some xy \<Rightarrow> (Some (fst xy), Some (snd xy)) | None \<Rightarrow> position sp)"

definition resolvedLine :: "MapPointSeries \<Rightarrow> DataItem \<Rightarrow> MapLine option" where
  \<comment> \<open>the local \<open>line\<close> after lines 198-218\<close>
  "resolvedLine this di = fst (snd (resolveLine (chart this) di []))"

definition resolvedPolygon :: "MapPointSeries \<Rightarrow> DataItem \<Rightarrow> MapPolygon option" where
  \<comment> \<open>the local \<open>polygon\<close> after lines 221-240\<close>
  "resolvedPolygon this di = fst (snd (resolvePolygon (chart this) di []))"

definition resolvedEntry :: "MapPointSeries \<Rightarrow> DataItem \<Rightarrow> Scan list \<Rightarrow> DataItem" where
  \<comment> \<open>the data item after the two resolutions\<close>
  "resolvedEntry this di scans =
     fst (resolvePolygon (chart this) (fst (resolveLine (chart this) di scans))
            (snd (snd (resolveLine (chart this) di scans))))"

definition resolvedScans :: "MapPointSeries \<Rightarrow> DataItem \<Rightarrow> Scan list \<Rightarrow> Scan list" where
  \<comment> \<open>the scans after the two resolutions\<close>
  "resolvedScans this di scans =
     snd (snd (resolvePolygon (chart this) (fst (resolveLine (chart this) di scans))
            (snd (snd (resolveLine (chart this) di scans)))))"

fun isLineScan :: "Scan \<Rightarrow> bool" where
  "isLineScan (LineScan _) = True"
| "isLineScan (PolygonScan _) = False"

fun isPolygonScan :: "Scan \<Rightarrow> bool" where
  "isPolygonScan (PolygonScan _) = True"
| "isPolygonScan (LineScan _) = False"

text \<open>The data items that the series of a collection hold under an identifier, in the order of the collection.\<close>

fun lineMatches :: "string \<Rightarrow> Series list \<Rightarrow> LineDataItem list" where
  "lineMatches lid [] = []"
| "lineMatches lid (MapLineSeries getDataItemById # ss) =
     (case getDataItemById lid of
        Some l \<Rightarrow> l # lineMatches lid ss
      | None \<Rightarrow> lineMatches lid ss)"
| "lineMatches lid (MapPolygonSeries getDataItemById # ss) = lineMatches lid ss"
| "lineMatches lid (OtherSeries # ss) = lineMatches lid ss"

fun polygonMatches :: "string \<Rightarrow> Series list \<Rightarrow> PolygonDataItem list" where
  "polygonMatches pid [] = []"
| "polygonMatches pid (MapPolygonSeries getDataItemById # ss) =
     (case getDataItemById pid of
        Some l \<Rightarrow> l # polygonMatches pid ss
      | None \<Rightarrow> polygonMatches pid ss)"
| "polygonMatches pid (MapLineSeries getDataItemById # ss) = polygonMatches pid ss"
| "polygonMatches pid (OtherSeries # ss) = polygonMatches pid ss"

text \<open>
  The resolver as the specification words it, for comparison with the code: the series are
  queried in order "until found", so the first series that holds the identifier answers.
\<close>

fun spec_resolveLineFirst :: "string \<Rightarrow> Series list \<Rightarrow> LineDataItem option" where
  "spec_resolveLineFirst lid [] = None"
| "spec_resolveLineFirst lid (MapLineSeries getDataItemById # ss) =
     (case getDataItemById lid of
        Some l \<Rightarrow> Some l
      | None \<Rightarrow> spec_resolveLineFirst lid ss)"
| "spec_resolveLineFirst lid (MapPolygonSeries getDataItemById # ss) = spec_resolveLineFirst lid ss"
| "spec_resolveLineFirst lid (OtherSeries # ss) = spec_resolveLineFirst lid ss"

section \<open>Invariants of the nested calls\<close>

text \<open>
  What a call of \<open>_positionBullet\<close>, its nested calls included, leaves alone. \<open>shape\<close> is
  what the bullets keep (which of them have a sprite, and their indices), \<open>frame\<close> the
  settings that placement never writes. \<open>cachedLine\<close> and \<open>cachedPolygon\<close> are the
  references as one pass of the resolution leaves them.
\<close>

definition shape :: "World \<Rightarrow> (bool \<times> nat option) list" where
  "shape w = map (\<lambda>b. (sprite b = None, bullet_index b)) (entryBullets w)"

definition frame ::
  "DataItem \<Rightarrow> Geometry option \<times> real option \<times> real option \<times> real option \<times> bool option \<times> string option \<times> string option" where
  "frame e = (geometry e, longitude e, latitude e, positionOnLine e, autoRotate e, lineId e, polygonId e)"

definition cachedLine :: "MapPointSeries \<Rightarrow> DataItem \<Rightarrow> LineDataItem option" where
  "cachedLine this e = lineDataItem (fst (resolveLine (chart this) e []))"

definition cachedPolygon :: "MapPointSeries \<Rightarrow> DataItem \<Rightarrow> PolygonDataItem option" where
  "cachedPolygon this e = polygonDataItem (fst (resolvePolygon (chart this) e []))"

definition keeps :: "MapPointSeries \<Rightarrow> World \<Rightarrow> World \<Rightarrow> bool" where
  "keeps this w w' =
     (shape w' = shape w \<and> frame (entry w') = frame (entry w)
      \<and> (lineDataItem (entry w') = lineDataItem (entry w)
           \<or> lineDataItem (entry w') = cachedLine this (entry w))
      \<and> (polygonDataItem (entry w') = polygonDataItem (entry w)
           \<or> polygonDataItem (entry w') = cachedPolygon this (entry w))
      \<and> (lineDataItem (entry w) \<noteq> None \<longrightarrow>
            filter isLineScan (scanLog w') = filter isLineScan (scanLog w))
      \<and> (polygonDataItem (entry w) \<noteq> None \<longrightarrow>
            filter isPolygonScan (scanLog w') = filter isPolygonScan (scanLog w))
      \<and> (lineDataItem (entry w) \<noteq> None \<and> polygonDataItem (entry w) \<noteq> None \<longrightarrow>
            scanLog w' = scanLog w))"

text \<open>
  A reference is settled when the resolution would not change it, and the data item is
  settled when the write of the angle would not change it either: a call on a settled data
  item makes no nested call.
\<close>

definition settledLine :: "MapPointSeries \<Rightarrow> DataItem \<Rightarrow> bool" where
  "settledLine this e = (cachedLine this e = lineDataItem e)"

definition settledPolygon :: "MapPointSeries \<Rightarrow> DataItem \<Rightarrow> bool" where
  "settledPolygon this e = (cachedPolygon this e = polygonDataItem e)"

definition angleWrite :: "(IPoint \<Rightarrow> IPoint \<Rightarrow> real) \<Rightarrow> MapPointSeries \<Rightarrow> DataItem \<Rightarrow> DataItem" where
  "angleWrite ga this e =
     (case resolvedPolygon this e of
        Some pg \<Rightarrow> e
      | None \<Rightarrow>
          if resolvedLine this e \<noteq> None \<and> isNumber (positionOnLine e)
          then (case chart this of
                  Some ch \<Rightarrow>
                    if truthy (autoRotate e)
                    then e\<lparr>autoRotateAngle :=
                           Some (ga (convert ch (positionToGeoPoint (the (resolvedLine this e))
                                                  (the (positionOnLine e) - 0.002)))
                                    (convert ch (positionToGeoPoint (the (resolvedLine this e))
                                                  (the (positionOnLine e) + 0.002))))\<rparr>
                    else e
                | None \<Rightarrow> e)
          else e)"

definition settled :: "(IPoint \<Rightarrow> IPoint \<Rightarrow> real) \<Rightarrow> MapPointSeries \<Rightarrow> DataItem \<Rightarrow> bool" where
  "settled ga this e = (settledLine this e \<and> settledPolygon this e \<and> angleWrite ga this e = e)"

section \<open>Sample inputs\<close>

definition noSettings :: DataItem where
  "noSettings = \<lparr>geometry = None, longitude = None, latitude = None, positionOnLine = None,
     autoRotate = None, autoRotateAngle = None, lineDataItem = None, lineId = None,
     polygonDataItem = None, polygonId = None\<rparr>"

definition blankSprite :: "DataItem \<Rightarrow> Sprite" where
  "blankSprite di = \<lparr>sprite_x = Some 1, sprite_y = Some 2, sprite_rotation = None,
     sprite_visible = None, dataItem = Some di\<rparr>"

definition equator :: MapLine where
  "equator = \<lparr>positionToGeoPoint = (\<lambda>p. \<lparr>geo_longitude = 100 * p, geo_latitude = 0\<rparr>)\<rparr>"

definition meridian :: MapLine where
  "meridian = \<lparr>positionToGeoPoint = (\<lambda>p. \<lparr>geo_longitude = 0, geo_latitude = 50 * p\<rparr>)\<rparr>"

definition island :: MapPolygon where
  "island = \<lparr>visualCentroid = \<lparr>geo_longitude = 10, geo_latitude = 20\<rparr>\<rparr>"

definition sampleChart :: "Series list \<Rightarrow> MapChart" where
  \<comment> \<open>a projection without image beyond latitude 80, a clip path holding the western
      hemisphere\<close>
  "sampleChart ss = \<lparr>series = ss,
     projection = (\<lambda>c. if \<bar>snd c\<bar> \<le> 80 then Some (2 * fst c, - 2 * snd c) else None),
     geoPath = (\<lambda>g. case g of Point c \<Rightarrow> fst c \<le> 0 | MultiPoint cs \<Rightarrow> True),
     convert = (\<lambda>g. (2 * geo_longitude g, - 2 * geo_latitude g))\<rparr>"

definition lagoon :: MapPolygon where
  "lagoon = \<lparr>visualCentroid = \<lparr>geo_longitude = - 30, geo_latitude = 40\<rparr>\<rparr>"

definition lineItem :: "MapLine \<Rightarrow> LineDataItem" where
  "lineItem l = \<lparr>mapLine = Some l\<rparr>"

definition polygonItem :: "MapPolygon \<Rightarrow> PolygonDataItem" where
  "polygonItem p = \<lparr>mapPolygon = Some p\<rparr>"

definition holding :: "string \<Rightarrow> 'a \<Rightarrow> string \<Rightarrow> 'a option" where
  \<comment> \<open>the \<open>getDataItemById\<close> of a series with one data item\<close>
  "holding k v = (\<lambda>i. if i = k then Some v else None)"

definition duplicateLines :: "Series list" where
  "duplicateLines = [MapLineSeries (holding ''a'' (lineItem equator)), OtherSeries,
     MapLineSeries (holding ''a'' (lineItem meridian))]"

definition duplicatePolygons :: "Series list" where
  "duplicatePolygons = [MapPolygonSeries (holding ''p'' (polygonItem island)),
     MapPolygonSeries (holding ''p'' (polygonItem lagoon))]"

definition bulletOf :: "DataItem \<Rightarrow> Bullet" where
  "bulletOf di = \<lparr>sprite = Some (blankSprite di), bullet_index = None\<rparr>"

definition plainBullet :: "DataItem \<Rightarrow> Bullet" where
  \<comment> \<open>a bullet function\<close>
  "plainBullet di = \<lparr>sprite = Some (blankSprite noSettings), bullet_index = None\<rparr>"

definition sampleSeries :: "Series list \<Rightarrow> MapPointSeries" where
  "sampleSeries ss = \<lparr>chart = Some (sampleChart ss), clipFront = None, clipBack = Some True,
     bullets = [plainBullet, plainBullet]\<rparr>"

definition slope :: "IPoint \<Rightarrow> IPoint \<Rightarrow> real" where
  \<comment> \<open>stands for \<open>$math.getAngle\<close> in the sample runs\<close>
  "slope p0 p1 = (fst p1 - fst p0) + (snd p1 - snd p0)"

definition sampleShape :: Candlestick where
  "sampleShape = \<lparr>settings = (\<lambda>k. if k = ''lowX0'' then Some 3 else None),
     dirty = (\<lambda>k. k = ''highY1''), clear = False, display = [ClosePath]\<rparr>"

text \<open>States of a data item with its bullets.\<close>

definition sampleWorld :: "DataItem \<Rightarrow> World" where
  "sampleWorld di = \<lparr>entry = di, entryBullets = [bulletOf di], scanLog = []\<rparr>"




text \<open>
  The inherited step for the sample runs. \<open>super._beforeChanged()\<close> runs the steps of the
  parent classes, which are outside the two files; in the library the one of \<open>Graphics\<close>
  sets \<open>_clear\<close> when a drawing attribute such as \<open>fill\<close> is dirty. \<open>graphicsStep\<close> is
  that case alone.
\<close>

definition graphicsStep :: "Candlestick \<Rightarrow> Candlestick" where
  "graphicsStep this = (if isDirty this ''fill'' then this\<lparr>clear := True\<rparr> else this)"

definition fillOnly :: Candlestick where
  "fillOnly = sampleShape\<lparr>dirty := (\<lambda>k. k = ''fill'')\<rparr>"

definition orientationOnly :: Candlestick where
  "orientationOnly = sampleShape\<lparr>dirty := (\<lambda>k. k = ''orientation'')\<rparr>"

section \<open>Auxiliary facts\<close>

lemma fold_lineCallback:
  "fold (lineCallback lid) ss (di, line0) =
     (case lineMatches lid ss of
        [] \<Rightarrow> (di, line0)
      | m # ms \<Rightarrow> (di\<lparr>lineDataItem := Some (last (m # ms))\<rparr>, mapLine (last (m # ms))))"
proof (induction ss arbitrary: di line0)
  case Nil
  show ?case by simp
next
  case (Cons s ss)
  show ?case
  proof (cases s)
    case (MapLineSeries g)
    then show ?thesis
      by (cases "g lid") (simp_all add: Cons.IH split: list.splits)
  next
    case (MapPolygonSeries g)
    then show ?thesis by (simp add: Cons.IH)
  next
    case OtherSeries
    then show ?thesis by (simp add: Cons.IH)
  qed
qed

lemma fold_polygonCallback:
  "fold (polygonCallback pid) ss (di, pg) =
     (case polygonMatches pid ss of
        [] \<Rightarrow> (di, pg)
      | m # ms \<Rightarrow> (di\<lparr>polygonDataItem := Some (last (m # ms))\<rparr>, mapPolygon (last (m # ms))))"
proof (induction ss arbitrary: di pg)
  case Nil
  show ?case by simp
next
  case (Cons s ss)
  show ?case
  proof (cases s)
    case (MapPolygonSeries g)
    then show ?thesis
      by (cases "g pid") (simp_all add: Cons.IH split: list.splits)
  next
    case (MapLineSeries g)
    then show ?thesis by (simp add: Cons.IH)
  next
    case OtherSeries
    then show ?thesis by (simp add: Cons.IH)
  qed
qed

lemma resolveLine_cases:
  "resolveLine cho di scans =
     (case lineDataItem di of
        Some l \<Rightarrow> (di, mapLine l, scans)
      | None \<Rightarrow>
          (case cho of
             None \<Rightarrow> (di, None, scans)
           | Some ch \<Rightarrow>
               if truthyString (lineId di)
               then (case lineMatches (the (lineId di)) (series ch) of
                       [] \<Rightarrow> (di, None, scans @ [LineScan (the (lineId di))])
                     | m # ms \<Rightarrow> (di\<lparr>lineDataItem := Some (last (m # ms))\<rparr>, mapLine (last (m # ms)),
                                  scans @ [LineScan (the (lineId di))]))
               else (di, None, scans)))"
  by (simp add: resolveLine_def each_def fold_lineCallback Let_def split: option.splits list.splits)

lemma resolvePolygon_cases:
  "resolvePolygon cho di scans =
     (case polygonDataItem di of
        Some l \<Rightarrow> (di, mapPolygon l, scans)
      | None \<Rightarrow>
          (case cho of
             None \<Rightarrow> (di, None, scans)
           | Some ch \<Rightarrow>
               if truthyString (polygonId di)
               then (case polygonMatches (the (polygonId di)) (series ch) of
                       [] \<Rightarrow> (di, None, scans @ [PolygonScan (the (polygonId di))])
                     | m # ms \<Rightarrow> (di\<lparr>polygonDataItem := Some (last (m # ms))\<rparr>, mapPolygon (last (m # ms)),
                                  scans @ [PolygonScan (the (polygonId di))]))
               else (di, None, scans)))"
  by (simp add: resolvePolygon_def each_def fold_polygonCallback Let_def split: option.splits list.splits)

lemma resolvedLine_eq: "fst (snd (resolveLine (chart this) di scans)) = resolvedLine this di"
  by (simp add: resolvedLine_def resolveLine_cases split: option.splits list.splits)

lemma resolvedPolygon_eq:
  "polygonDataItem di' = polygonDataItem di \<Longrightarrow> polygonId di' = polygonId di \<Longrightarrow>
   fst (snd (resolvePolygon (chart this) di' scans)) = resolvedPolygon this di"
  by (simp add: resolvedPolygon_def resolvePolygon_cases split: option.splits list.splits)

lemma position_positionBulletReal:
  "chart this = Some ch \<Longrightarrow> position (positionBulletReal this sp geom c) = projected ch c sp"
  by (auto simp: positionBulletReal_def position_def projected_def Let_def split: option.splits)

lemma resolveLine_keeps:
  "geometry (fst (resolveLine cho di s)) = geometry di"
  "longitude (fst (resolveLine cho di s)) = longitude di"
  "latitude (fst (resolveLine cho di s)) = latitude di"
  "positionOnLine (fst (resolveLine cho di s)) = positionOnLine di"
  "autoRotate (fst (resolveLine cho di s)) = autoRotate di"
  "autoRotateAngle (fst (resolveLine cho di s)) = autoRotateAngle di"
  "lineId (fst (resolveLine cho di s)) = lineId di"
  "polygonDataItem (fst (resolveLine cho di s)) = polygonDataItem di"
  "polygonId (fst (resolveLine cho di s)) = polygonId di"
  by (simp_all add: resolveLine_cases split: option.splits list.splits)

lemma resolvePolygon_keeps:
  "geometry (fst (resolvePolygon cho di s)) = geometry di"
  "longitude (fst (resolvePolygon cho di s)) = longitude di"
  "latitude (fst (resolvePolygon cho di s)) = latitude di"
  "positionOnLine (fst (resolvePolygon cho di s)) = positionOnLine di"
  "autoRotate (fst (resolvePolygon cho di s)) = autoRotate di"
  "autoRotateAngle (fst (resolvePolygon cho di s)) = autoRotateAngle di"
  "lineId (fst (resolvePolygon cho di s)) = lineId di"
  "lineDataItem (fst (resolvePolygon cho di s)) = lineDataItem di"
  "polygonId (fst (resolvePolygon cho di s)) = polygonId di"
  by (simp_all add: resolvePolygon_cases split: option.splits list.splits)

lemma resolvedPolygon_after_line:
  "resolvedPolygon this (fst (resolveLine cho di s)) = resolvedPolygon this di"
  by (simp add: resolvedPolygon_def resolvePolygon_cases resolveLine_keeps
        split: option.splits list.splits)

lemma positionBullet_run:
  assumes "sprite bullet = Some sp" and "dataItem sp = Some di"
  shows "positionBullet ga this bullet scans =
           Inr (bullet\<lparr>sprite := Some (placeSprite ga this (bullet_index bullet) sp
                                         (resolvedEntry this di scans)
                                         (resolvedLine this di) (resolvedPolygon this di))\<rparr>,
                resolvedScans this di scans)"
  using assms
  by (simp add: positionBullet_def resolvedEntry_def resolvedScans_def case_prod_beta Let_def
        resolvedLine_eq resolvedPolygon_eq resolveLine_keeps resolvedPolygon_after_line)

lemma resolvedEntry_keeps:
  "geometry (resolvedEntry this di s) = geometry di"
  "longitude (resolvedEntry this di s) = longitude di"
  "latitude (resolvedEntry this di s) = latitude di"
  "positionOnLine (resolvedEntry this di s) = positionOnLine di"
  "autoRotate (resolvedEntry this di s) = autoRotate di"
  "autoRotateAngle (resolvedEntry this di s) = autoRotateAngle di"
  by (simp_all add: resolvedEntry_def resolvePolygon_keeps resolveLine_keeps)

lemma projected_dataItem [simp]: "projected ch c (sp\<lparr>dataItem := d\<rparr>) = projected ch c sp"
  by (simp add: projected_def position_def split: option.splits)

lemma dataItem_positionBulletReal: "dataItem (positionBulletReal this sp g c) = dataItem sp"
  by (simp add: positionBulletReal_def Let_def split: option.splits)

lemma dataItem_placeSprite:
  "\<exists>a. dataItem (placeSprite ga this idx sp di line0 polygon) = Some (di\<lparr>autoRotateAngle := a\<rparr>)"
proof -
  have same: "\<exists>a. Some di = Some (di\<lparr>autoRotateAngle := a\<rparr>)"
    by (rule exI [of _ "autoRotateAngle di"]) simp
  show ?thesis
    using same
    by (auto simp: placeSprite_def Let_def dataItem_positionBulletReal
          split: option.splits Geometry.splits)
qed

lemma entry_placeSprite:
  "lineDataItem (the (dataItem (placeSprite ga this idx sp di line0 polygon))) = lineDataItem di"
  "polygonDataItem (the (dataItem (placeSprite ga this idx sp di line0 polygon))) = polygonDataItem di"
  "dataItem (placeSprite ga this idx sp di line0 polygon) \<noteq> None"
  using dataItem_placeSprite [of ga this idx sp di line0 polygon] by auto

lemma entryOf_run:
  assumes "sprite bullet = Some sp" and "dataItem sp = Some di"
  shows "map_option lineDataItem (entryOf (positionBullet ga this bullet scans)) =
           Some (lineDataItem (fst (resolveLine (chart this) di scans)))"
    and "map_option polygonDataItem (entryOf (positionBullet ga this bullet scans)) =
           Some (polygonDataItem (fst (resolvePolygon (chart this) di scans)))"
proof -
  let ?sp = "placeSprite ga this (bullet_index bullet) sp (resolvedEntry this di scans)
               (resolvedLine this di) (resolvedPolygon this di)"
  obtain e where e: "dataItem ?sp = Some e"
    using entry_placeSprite(3) by blast
  have l: "lineDataItem e = lineDataItem (resolvedEntry this di scans)"
    using entry_placeSprite(1) [of ga this "bullet_index bullet" sp "resolvedEntry this di scans"
        "resolvedLine this di" "resolvedPolygon this di"] e by simp
  have p: "polygonDataItem e = polygonDataItem (resolvedEntry this di scans)"
    using entry_placeSprite(2) [of ga this "bullet_index bullet" sp "resolvedEntry this di scans"
        "resolvedLine this di" "resolvedPolygon this di"] e by simp
  have p2: "polygonDataItem (resolvedEntry this di scans) =
              polygonDataItem (fst (resolvePolygon (chart this) di scans))"
    by (simp add: resolvedEntry_def resolvePolygon_cases resolveLine_keeps
          split: option.splits list.splits)
  show "map_option lineDataItem (entryOf (positionBullet ga this bullet scans)) =
           Some (lineDataItem (fst (resolveLine (chart this) di scans)))"
    using assms e l
    by (simp add: positionBullet_run entryOf_def markerOf_def resolvedEntry_def resolvePolygon_keeps)
  show "map_option polygonDataItem (entryOf (positionBullet ga this bullet scans)) =
           Some (polygonDataItem (fst (resolvePolygon (chart this) di scans)))"
    using assms e p p2
    by (simp add: positionBullet_run entryOf_def markerOf_def)
qed


lemma rotation_positionBulletReal:
  "chart this = Some ch \<Longrightarrow> dataItem sp = Some di \<Longrightarrow> autoRotate di = Some True \<Longrightarrow>
   sprite_rotation (positionBulletReal this sp g c) = Some (getOr (autoRotateAngle di) 0)"
  by (simp add: positionBulletReal_def Let_def truthy_def split: option.splits)

lemma fold_makeBullet:
  "fold (\<lambda>_ (i, bs'). (Suc i, makeBullet di f (Some i) bs')) cs (k, bs) =
     (k + length cs, bs @ map (\<lambda>i. boundBullet di f (Some i)) [k ..< k + length cs])"
proof (induction cs arbitrary: k bs)
  case Nil
  show ?case by simp
next
  case (Cons c cs)
  have u: "[k ..< k + length (c # cs)] = k # [Suc k ..< Suc k + length cs]"
    by (simp add: upt_conv_Cons del: upt_Suc)
  have "fold (\<lambda>_ (i, bs'). (Suc i, makeBullet di f (Some i) bs')) (c # cs) (k, bs) =
        fold (\<lambda>_ (i, bs'). (Suc i, makeBullet di f (Some i) bs')) cs
          (Suc k, bs @ [boundBullet di f (Some k)])"
    by (simp add: makeBullet_def)
  also have "\<dots> = (Suc k + length cs,
       (bs @ [boundBullet di f (Some k)]) @
         map (\<lambda>i. boundBullet di f (Some i)) [Suc k ..< Suc k + length cs])"
    by (rule Cons.IH)
  also have "\<dots> = (k + length (c # cs),
       bs @ map (\<lambda>i. boundBullet di f (Some i)) [k ..< k + length (c # cs)])"
    by (simp only: u) simp
  finally show ?case .
qed

lemma fold_factories_multi:
  "fold (\<lambda>f bs. bs @ map (\<lambda>i. boundBullet di f (Some i)) [0 ..< n]) fs acc =
     acc @ concat (map (\<lambda>f. map (\<lambda>i. boundBullet di f (Some i)) [0 ..< n]) fs)"
  by (induction fs arbitrary: acc) simp_all

lemma fold_factories_point:
  "fold (\<lambda>f bs. makeBullet di f None bs) fs acc = acc @ map (\<lambda>f. boundBullet di f None) fs"
  by (induction fs arbitrary: acc) (simp_all add: makeBullet_def)

lemma makeBullets_multi:
  "geometry di = Some (MultiPoint cs) \<Longrightarrow>
   makeBullets this di =
     concat (map (\<lambda>f. map (\<lambda>i. boundBullet di f (Some i)) [0 ..< length cs]) (bullets this))"
  using fold_factories_multi [of di "length cs" "bullets this" "[]"]
  by (simp add: makeBullets_def each_def fold_makeBullet)

lemma makeBullets_point:
  "geometry di = Some (Point c) \<Longrightarrow>
   makeBullets this di = map (\<lambda>f. boundBullet di f None) (bullets this)"
  using fold_factories_point [of di "bullets this" "[]"]
  by (simp add: makeBullets_def each_def)

lemma length_concat_const:
  "length (concat (map (\<lambda>f. map (g f) [0 ..< n]) fs)) = length fs * n"
  by (induction fs) simp_all

lemma placeSprite_multi:
  assumes "chart this = Some ch" and "geometry di = Some (MultiPoint cs)" and "i < length cs"
    and "line0 = None \<or> positionOnLine di = None" and "longitude di = None \<or> latitude di = None"
  shows "position (placeSprite ga this (Some i) sp di line0 None) = projected ch (cs ! i) sp"
  using assms
  by (auto simp: placeSprite_def Let_def isNumber_def getOr_def coordinateAt_def
        position_positionBulletReal)

lemma multipoint_placement:
  fixes f :: "DataItem \<Rightarrow> Bullet"
  assumes g: "geometry di = Some (MultiPoint cs)" and i: "i < length cs"
    and c: "chart this = Some ch" and s: "sprite (f di) = Some sp"
    and pg: "resolvedPolygon this di = None"
    and ln: "resolvedLine this di = None \<or> positionOnLine di = None"
    and ll: "longitude di = None \<or> latitude di = None"
  shows "map_option position
           (markerOf (positionBullet ga this (boundBullet di f (Some i)) scans)) =
           Some (projected ch (cs ! i) sp)"
proof -
  have b: "sprite (boundBullet di f (Some i)) = Some (sp\<lparr>dataItem := Some di\<rparr>)"
    using s by (simp add: boundBullet_def Let_def)
  have d: "dataItem (sp\<lparr>dataItem := Some di\<rparr>) = Some di"
    by simp
  have k: "bullet_index (boundBullet di f (Some i)) = Some i"
    by (simp add: boundBullet_def Let_def)
  have "position (placeSprite ga this (Some i) (sp\<lparr>dataItem := Some di\<rparr>)
          (resolvedEntry this di scans) (resolvedLine this di) None) =
        projected ch (cs ! i) (sp\<lparr>dataItem := Some di\<rparr>)"
    using g i c ln ll by (intro placeSprite_multi) (auto simp: resolvedEntry_keeps)
  then show ?thesis
    using pg
    by (simp add: positionBullet_run [OF b d] markerOf_def k)
qed

lemma equator_meridian: "equator \<noteq> meridian"
proof
  assume "equator = meridian"
  then have "positionToGeoPoint equator 1 = positionToGeoPoint meridian 1"
    by simp
  then show False
    by (simp add: equator_def meridian_def)
qed

lemma sample_chart [simp]: "chart (sampleSeries ss) = Some (sampleChart ss)"
  by (simp add: sampleSeries_def)

lemma sample_bullet [simp]:
  "sprite (bulletOf di) = Some (blankSprite di)" "dataItem (blankSprite di) = Some di"
  "bullet_index (bulletOf di) = None"
  by (simp_all add: bulletOf_def blankSprite_def)

lemma sample_matches [simp]:
  "lineMatches ''a'' duplicateLines = [lineItem equator, lineItem meridian]"
  "polygonMatches ''p'' duplicatePolygons = [polygonItem island, polygonItem lagoon]"
  "lineMatches ''a'' duplicatePolygons = []"
  "polygonMatches ''p'' duplicateLines = []"
  "spec_resolveLineFirst ''a'' duplicateLines = Some (lineItem equator)"
  by (simp_all add: duplicateLines_def duplicatePolygons_def holding_def)

lemma sample_matches_both [simp]:
  "lineMatches ''a'' (duplicateLines @ duplicatePolygons) = [lineItem equator, lineItem meridian]"
  "polygonMatches ''p'' (duplicateLines @ duplicatePolygons) = [polygonItem island, polygonItem lagoon]"
  by (simp_all add: duplicateLines_def duplicatePolygons_def holding_def)

lemma sample_series [simp]: "series (sampleChart ss) = ss"
  by (simp add: sampleChart_def)

subsection \<open>The nested calls\<close>

lemma cachedLine_cases:
  "cachedLine this e =
     (case lineDataItem e of
        Some l \<Rightarrow> Some l
      | None \<Rightarrow>
          (case chart this of
             None \<Rightarrow> None
           | Some ch \<Rightarrow>
               if truthyString (lineId e)
               then (case lineMatches (the (lineId e)) (series ch) of
                       [] \<Rightarrow> None
                     | m # ms \<Rightarrow> Some (last (m # ms)))
               else None))"
  by (simp add: cachedLine_def resolveLine_cases split: option.splits list.splits)

lemma cachedPolygon_cases:
  "cachedPolygon this e =
     (case polygonDataItem e of
        Some l \<Rightarrow> Some l
      | None \<Rightarrow>
          (case chart this of
             None \<Rightarrow> None
           | Some ch \<Rightarrow>
               if truthyString (polygonId e)
               then (case polygonMatches (the (polygonId e)) (series ch) of
                       [] \<Rightarrow> None
                     | m # ms \<Rightarrow> Some (last (m # ms)))
               else None))"
  by (simp add: cachedPolygon_def resolvePolygon_cases split: option.splits list.splits)

lemma cachedLine_set: "lineDataItem e = Some l \<Longrightarrow> cachedLine this e = Some l"
  by (simp add: cachedLine_cases)

lemma cachedPolygon_set: "polygonDataItem e = Some l \<Longrightarrow> cachedPolygon this e = Some l"
  by (simp add: cachedPolygon_cases)

lemma cachedLine_same:
  "frame e' = frame e \<Longrightarrow> lineDataItem e' = lineDataItem e \<Longrightarrow> cachedLine this e' = cachedLine this e"
  by (auto simp: cachedLine_cases frame_def split: option.splits)

lemma cachedPolygon_same:
  "frame e' = frame e \<Longrightarrow> polygonDataItem e' = polygonDataItem e \<Longrightarrow>
   cachedPolygon this e' = cachedPolygon this e"
  by (auto simp: cachedPolygon_cases frame_def split: option.splits)

lemma cachedLine_again:
  "frame e' = frame e \<Longrightarrow> lineDataItem e' = cachedLine this e \<Longrightarrow> cachedLine this e' = cachedLine this e"
  by (auto simp: cachedLine_cases frame_def split: option.splits list.splits if_splits)

lemma cachedPolygon_again:
  "frame e' = frame e \<Longrightarrow> polygonDataItem e' = cachedPolygon this e \<Longrightarrow>
   cachedPolygon this e' = cachedPolygon this e"
  by (auto simp: cachedPolygon_cases frame_def split: option.splits list.splits if_splits)

lemma keeps_refl: "keeps this w w"
  by (simp add: keeps_def)

lemma keeps_trans:
  assumes a: "keeps this w w1" and b: "keeps this w1 w2"
  shows "keeps this w w2"
proof -
  have f: "frame (entry w1) = frame (entry w)" "frame (entry w2) = frame (entry w1)"
    using a b by (simp_all add: keeps_def)
  have l1: "lineDataItem (entry w1) = lineDataItem (entry w) \<or> lineDataItem (entry w1) = cachedLine this (entry w)"
    and l2: "lineDataItem (entry w2) = lineDataItem (entry w1) \<or> lineDataItem (entry w2) = cachedLine this (entry w1)"
    and p1: "polygonDataItem (entry w1) = polygonDataItem (entry w) \<or> polygonDataItem (entry w1) = cachedPolygon this (entry w)"
    and p2: "polygonDataItem (entry w2) = polygonDataItem (entry w1) \<or> polygonDataItem (entry w2) = cachedPolygon this (entry w1)"
    using a b by (simp_all add: keeps_def)
  have cl: "cachedLine this (entry w1) = cachedLine this (entry w)"
    using l1 f cachedLine_same cachedLine_again by blast
  have cp: "cachedPolygon this (entry w1) = cachedPolygon this (entry w)"
    using p1 f cachedPolygon_same cachedPolygon_again by blast
  have ls: "lineDataItem (entry w1) = lineDataItem (entry w)" if "lineDataItem (entry w) \<noteq> None"
    using that l1 by (auto simp: cachedLine_set)
  have ps: "polygonDataItem (entry w1) = polygonDataItem (entry w)" if "polygonDataItem (entry w) \<noteq> None"
    using that p1 by (auto simp: cachedPolygon_set)
  show ?thesis
    unfolding keeps_def
  proof (intro conjI impI)
    show "shape w2 = shape w" using a b by (simp add: keeps_def)
    show "frame (entry w2) = frame (entry w)" using f by simp
    show "lineDataItem (entry w2) = lineDataItem (entry w) \<or> lineDataItem (entry w2) = cachedLine this (entry w)"
      using l1 l2 cl by auto
    show "polygonDataItem (entry w2) = polygonDataItem (entry w) \<or> polygonDataItem (entry w2) = cachedPolygon this (entry w)"
      using p1 p2 cp by auto
  next
    assume h: "lineDataItem (entry w) \<noteq> None"
    then have "lineDataItem (entry w1) \<noteq> None" using ls by simp
    then show "filter isLineScan (scanLog w2) = filter isLineScan (scanLog w)"
      using a b h by (simp add: keeps_def)
  next
    assume h: "polygonDataItem (entry w) \<noteq> None"
    then have "polygonDataItem (entry w1) \<noteq> None" using ps by simp
    then show "filter isPolygonScan (scanLog w2) = filter isPolygonScan (scanLog w)"
      using a b h by (simp add: keeps_def)
  next
    assume h: "lineDataItem (entry w) \<noteq> None \<and> polygonDataItem (entry w) \<noteq> None"
    then have "lineDataItem (entry w1) \<noteq> None \<and> polygonDataItem (entry w1) \<noteq> None"
      using ls ps by simp
    then show "scanLog w2 = scanLog w"
      using a b h by (simp add: keeps_def)
  qed
qed

lemma frame_update [simp]:
  "frame (e\<lparr>lineDataItem := x\<rparr>) = frame e"
  "frame (e\<lparr>polygonDataItem := y\<rparr>) = frame e"
  "frame (e\<lparr>autoRotateAngle := z\<rparr>) = frame e"
  by (simp_all add: frame_def)

lemma shape_update [simp]:
  "shape (w\<lparr>entry := e\<rparr>) = shape w"
  "shape (w\<lparr>scanLog := l\<rparr>) = shape w"
  by (simp_all add: shape_def)

lemma fold_lineCallbackAt_None: "fold (lineCallbackAt md lid) ss None = None"
  by (induction ss) simp_all

lemma fold_polygonCallbackAt_None: "fold (polygonCallbackAt md pid) ss None = None"
  by (induction ss) simp_all

lemma setEntry_line:
  assumes good: "\<forall>w w'. md w = Some w' \<longrightarrow> keeps this w w'"
    and s: "setEntry md (\<lambda>di. di\<lparr>lineDataItem := Some l\<rparr>) w = Some w'"
  shows "lineDataItem (entry w') = Some l \<and> shape w' = shape w \<and> frame (entry w') = frame (entry w)
       \<and> (polygonDataItem (entry w') = polygonDataItem (entry w)
            \<or> polygonDataItem (entry w') = cachedPolygon this (entry w))
       \<and> filter isLineScan (scanLog w') = filter isLineScan (scanLog w)
       \<and> (polygonDataItem (entry w) \<noteq> None \<longrightarrow> scanLog w' = scanLog w)"
proof (cases "(entry w)\<lparr>lineDataItem := Some l\<rparr> = entry w")
  case True
  then have "w' = w" using s by (simp add: setEntry_def)
  moreover have "lineDataItem (entry w) = Some l"
    using arg_cong [OF True, of lineDataItem] by simp
  ultimately show ?thesis by simp
next
  case False
  let ?w = "w\<lparr>entry := (entry w)\<lparr>lineDataItem := Some l\<rparr>\<rparr>"
  have "md ?w = Some w'" using s False by (simp add: setEntry_def)
  then have k: "keeps this ?w w'" using good by blast
  have cp: "cachedPolygon this (entry ?w) = cachedPolygon this (entry w)"
    by (rule cachedPolygon_same) simp_all
  show ?thesis
    using k cp by (auto simp: keeps_def cachedLine_set)
qed

lemma setEntry_polygon:
  assumes good: "\<forall>w w'. md w = Some w' \<longrightarrow> keeps this w w'"
    and s: "setEntry md (\<lambda>di. di\<lparr>polygonDataItem := Some l\<rparr>) w = Some w'"
  shows "polygonDataItem (entry w') = Some l \<and> shape w' = shape w \<and> frame (entry w') = frame (entry w)
       \<and> (lineDataItem (entry w') = lineDataItem (entry w)
            \<or> lineDataItem (entry w') = cachedLine this (entry w))
       \<and> filter isPolygonScan (scanLog w') = filter isPolygonScan (scanLog w)
       \<and> (lineDataItem (entry w) \<noteq> None \<longrightarrow> scanLog w' = scanLog w)"
proof (cases "(entry w)\<lparr>polygonDataItem := Some l\<rparr> = entry w")
  case True
  then have "w' = w" using s by (simp add: setEntry_def)
  moreover have "polygonDataItem (entry w) = Some l"
    using arg_cong [OF True, of polygonDataItem] by simp
  ultimately show ?thesis by simp
next
  case False
  let ?w = "w\<lparr>entry := (entry w)\<lparr>polygonDataItem := Some l\<rparr>\<rparr>"
  have "md ?w = Some w'" using s False by (simp add: setEntry_def)
  then have k: "keeps this ?w w'" using good by blast
  have cp: "cachedLine this (entry ?w) = cachedLine this (entry w)"
    by (rule cachedLine_same) simp_all
  show ?thesis
    using k cp by (auto simp: keeps_def cachedPolygon_set)
qed

lemma lineFold:
  assumes good: "\<forall>w w'. md w = Some w' \<longrightarrow> keeps this w w'"
  shows "fold (lineCallbackAt md lid) ss (Some (w, line0)) = Some (w', line') \<Longrightarrow>
     line' = (case lineMatches lid ss of [] \<Rightarrow> line0 | m # ms \<Rightarrow> mapLine (last (m # ms)))
     \<and> lineDataItem (entry w') =
         (case lineMatches lid ss of [] \<Rightarrow> lineDataItem (entry w) | m # ms \<Rightarrow> Some (last (m # ms)))
     \<and> shape w' = shape w \<and> frame (entry w') = frame (entry w)
     \<and> (polygonDataItem (entry w') = polygonDataItem (entry w)
          \<or> polygonDataItem (entry w') = cachedPolygon this (entry w))
     \<and> filter isLineScan (scanLog w') = filter isLineScan (scanLog w)
     \<and> (polygonDataItem (entry w) \<noteq> None \<longrightarrow> scanLog w' = scanLog w)"
proof (induction ss arbitrary: w line0)
  case Nil
  then show ?case by simp
next
  case (Cons s ss)
  show ?case
  proof (cases s)
    case (MapLineSeries g)
    show ?thesis
    proof (cases "g lid")
      case None
      then show ?thesis
        using Cons.prems Cons.IH [of w line0] MapLineSeries by simp
    next
      case (Some l)
      obtain w1 where w1: "setEntry md (\<lambda>di. di\<lparr>lineDataItem := Some l\<rparr>) w = Some w1"
        using Cons.prems MapLineSeries Some
        by (cases "setEntry md (\<lambda>di. di\<lparr>lineDataItem := Some l\<rparr>) w")
           (simp_all add: fold_lineCallbackAt_None)
      have rest: "fold (lineCallbackAt md lid) ss (Some (w1, mapLine l)) = Some (w', line')"
        using Cons.prems MapLineSeries Some w1 by simp
      note a = setEntry_line [OF good w1]
      note b = Cons.IH [OF rest]
      have c: "cachedPolygon this (entry w1) = cachedPolygon this (entry w)"
        using a cachedPolygon_same cachedPolygon_again by blast
      have d: "polygonDataItem (entry w1) \<noteq> None" if "polygonDataItem (entry w) \<noteq> None"
        using that a by (auto simp: cachedPolygon_set)
      show ?thesis
        using a b c d MapLineSeries Some
        by (auto split: list.splits)
    qed
  next
    case (MapPolygonSeries g)
    then show ?thesis
      using Cons.prems Cons.IH [of w line0] by simp
  next
    case OtherSeries
    then show ?thesis
      using Cons.prems Cons.IH [of w line0] by simp
  qed
qed

lemma polygonFold:
  assumes good: "\<forall>w w'. md w = Some w' \<longrightarrow> keeps this w w'"
  shows "fold (polygonCallbackAt md pid) ss (Some (w, pg0)) = Some (w', pg') \<Longrightarrow>
     pg' = (case polygonMatches pid ss of [] \<Rightarrow> pg0 | m # ms \<Rightarrow> mapPolygon (last (m # ms)))
     \<and> polygonDataItem (entry w') =
         (case polygonMatches pid ss of [] \<Rightarrow> polygonDataItem (entry w) | m # ms \<Rightarrow> Some (last (m # ms)))
     \<and> shape w' = shape w \<and> frame (entry w') = frame (entry w)
     \<and> (lineDataItem (entry w') = lineDataItem (entry w)
          \<or> lineDataItem (entry w') = cachedLine this (entry w))
     \<and> filter isPolygonScan (scanLog w') = filter isPolygonScan (scanLog w)
     \<and> (lineDataItem (entry w) \<noteq> None \<longrightarrow> scanLog w' = scanLog w)"
proof (induction ss arbitrary: w pg0)
  case Nil
  then show ?case by simp
next
  case (Cons s ss)
  show ?case
  proof (cases s)
    case (MapPolygonSeries g)
    show ?thesis
    proof (cases "g pid")
      case None
      then show ?thesis
        using Cons.prems Cons.IH [of w pg0] MapPolygonSeries by simp
    next
      case (Some l)
      obtain w1 where w1: "setEntry md (\<lambda>di. di\<lparr>polygonDataItem := Some l\<rparr>) w = Some w1"
        using Cons.prems MapPolygonSeries Some
        by (cases "setEntry md (\<lambda>di. di\<lparr>polygonDataItem := Some l\<rparr>) w")
           (simp_all add: fold_polygonCallbackAt_None)
      have rest: "fold (polygonCallbackAt md pid) ss (Some (w1, mapPolygon l)) = Some (w', pg')"
        using Cons.prems MapPolygonSeries Some w1 by simp
      note a = setEntry_polygon [OF good w1]
      note b = Cons.IH [OF rest]
      have c: "cachedLine this (entry w1) = cachedLine this (entry w)"
        using a cachedLine_same cachedLine_again by blast
      have d: "lineDataItem (entry w1) \<noteq> None" if "lineDataItem (entry w) \<noteq> None"
        using that a by (auto simp: cachedLine_set)
      show ?thesis
        using a b c d MapPolygonSeries Some
        by (auto split: list.splits)
    qed
  next
    case (MapLineSeries g)
    then show ?thesis
      using Cons.prems Cons.IH [of w pg0] by simp
  next
    case OtherSeries
    then show ?thesis
      using Cons.prems Cons.IH [of w pg0] by simp
  qed
qed

lemma resolvedLine_cases:
  "resolvedLine this e =
     (case lineDataItem e of
        Some l \<Rightarrow> mapLine l
      | None \<Rightarrow>
          (case chart this of
             None \<Rightarrow> None
           | Some ch \<Rightarrow>
               if truthyString (lineId e)
               then (case lineMatches (the (lineId e)) (series ch) of
                       [] \<Rightarrow> None
                     | m # ms \<Rightarrow> mapLine (last (m # ms)))
               else None))"
  by (simp add: resolvedLine_def resolveLine_cases split: option.splits list.splits)

lemma resolvedPolygon_cases:
  "resolvedPolygon this e =
     (case polygonDataItem e of
        Some l \<Rightarrow> mapPolygon l
      | None \<Rightarrow>
          (case chart this of
             None \<Rightarrow> None
           | Some ch \<Rightarrow>
               if truthyString (polygonId e)
               then (case polygonMatches (the (polygonId e)) (series ch) of
                       [] \<Rightarrow> None
                     | m # ms \<Rightarrow> mapPolygon (last (m # ms)))
               else None))"
  by (simp add: resolvedPolygon_def resolvePolygon_cases split: option.splits list.splits)

lemma resolvedLine_kept:
  "frame e' = frame e \<Longrightarrow>
   lineDataItem e' = lineDataItem e \<or> lineDataItem e' = cachedLine this e \<Longrightarrow>
   resolvedLine this e' = resolvedLine this e"
  by (auto simp: resolvedLine_cases cachedLine_cases frame_def split: option.splits list.splits if_splits)

lemma resolvedPolygon_kept:
  "frame e' = frame e \<Longrightarrow>
   polygonDataItem e' = polygonDataItem e \<or> polygonDataItem e' = cachedPolygon this e \<Longrightarrow>
   resolvedPolygon this e' = resolvedPolygon this e"
  by (auto simp: resolvedPolygon_cases cachedPolygon_cases frame_def
        split: option.splits list.splits if_splits)

lemma resolveLineAt_result:
  assumes good: "\<forall>w w'. md w = Some w' \<longrightarrow> keeps this w w'"
    and r: "resolveLineAt md (chart this) w = Some (w1, line0)"
  shows "line0 = resolvedLine this (entry w) \<and> lineDataItem (entry w1) = cachedLine this (entry w)
       \<and> keeps this w w1"
proof (cases "lineDataItem (entry w) = None \<and> chart this \<noteq> None \<and> truthyString (lineId (entry w))")
  case False
  then have "w1 = w" and "line0 = resolvedLine this (entry w)"
    using r by (auto simp: resolveLineAt_def resolvedLine_cases split: option.splits if_splits)
  moreover have "cachedLine this (entry w) = lineDataItem (entry w)"
    using False by (auto simp: cachedLine_cases split: option.splits)
  ultimately show ?thesis by (simp add: keeps_refl)
next
  case True
  then obtain ch where ch: "chart this = Some ch" by auto
  let ?lid = "the (lineId (entry w))"
  let ?w = "w\<lparr>scanLog := scanLog w @ [LineScan ?lid]\<rparr>"
  have f: "fold (lineCallbackAt md ?lid) (series ch) (Some (?w, None)) = Some (w1, line0)"
    using r True ch by (simp add: resolveLineAt_def each_def)
  note a = lineFold [OF good f]
  have l: "line0 = resolvedLine this (entry w)"
    using a True ch by (simp add: resolvedLine_cases split: list.splits)
  have c: "lineDataItem (entry w1) = cachedLine this (entry w)"
    using a True ch by (simp add: cachedLine_cases split: list.splits)
  have k: "keeps this w w1"
    using a c True by (auto simp: keeps_def)
  show ?thesis using l c k by simp
qed

lemma resolvePolygonAt_result:
  assumes good: "\<forall>w w'. md w = Some w' \<longrightarrow> keeps this w w'"
    and r: "resolvePolygonAt md (chart this) w = Some (w1, pg0)"
  shows "pg0 = resolvedPolygon this (entry w) \<and> polygonDataItem (entry w1) = cachedPolygon this (entry w)
       \<and> keeps this w w1"
proof (cases "polygonDataItem (entry w) = None \<and> chart this \<noteq> None \<and> truthyString (polygonId (entry w))")
  case False
  then have "w1 = w" and "pg0 = resolvedPolygon this (entry w)"
    using r by (auto simp: resolvePolygonAt_def resolvedPolygon_cases split: option.splits if_splits)
  moreover have "cachedPolygon this (entry w) = polygonDataItem (entry w)"
    using False by (auto simp: cachedPolygon_cases split: option.splits)
  ultimately show ?thesis by (simp add: keeps_refl)
next
  case True
  then obtain ch where ch: "chart this = Some ch" by auto
  let ?pid = "the (polygonId (entry w))"
  let ?w = "w\<lparr>scanLog := scanLog w @ [PolygonScan ?pid]\<rparr>"
  have f: "fold (polygonCallbackAt md ?pid) (series ch) (Some (?w, None)) = Some (w1, pg0)"
    using r True ch by (simp add: resolvePolygonAt_def each_def)
  note a = polygonFold [OF good f]
  have l: "pg0 = resolvedPolygon this (entry w)"
    using a True ch by (simp add: resolvedPolygon_cases split: list.splits)
  have c: "polygonDataItem (entry w1) = cachedPolygon this (entry w)"
    using a True ch by (simp add: cachedPolygon_cases split: list.splits)
  have k: "keeps this w w1"
    using a c True by (auto simp: keeps_def)
  show ?thesis using l c k by simp
qed

lemma shape_list_update:
  "sprite b = Some sp' \<Longrightarrow> sprite (bs ! k) = Some sp \<Longrightarrow> bullet_index b = bullet_index (bs ! k) \<Longrightarrow>
   map (\<lambda>b. (sprite b = None, bullet_index b)) (bs[k := b]) =
   map (\<lambda>b. (sprite b = None, bullet_index b)) bs"
  by (cases "k < length bs") (simp_all add: map_update list_update_same_conv list_update_beyond)

lemma positionBulletRealAt_keeps:
  "shape (positionBulletRealAt this k g c w) = shape w"
  "entry (positionBulletRealAt this k g c w) = entry w"
  "scanLog (positionBulletRealAt this k g c w) = scanLog w"
proof -
  show "shape (positionBulletRealAt this k g c w) = shape w"
  proof (cases "sprite (entryBullets w ! k)")
    case None
    then show ?thesis by (simp add: positionBulletRealAt_def)
  next
    case (Some sp)
    show ?thesis
      unfolding positionBulletRealAt_def shape_def using Some
      by (simp add: shape_list_update [where sp = sp])
  qed
  show "entry (positionBulletRealAt this k g c w) = entry w"
    by (cases "sprite (entryBullets w ! k)") (simp_all add: positionBulletRealAt_def)
  show "scanLog (positionBulletRealAt this k g c w) = scanLog w"
    by (cases "sprite (entryBullets w ! k)") (simp_all add: positionBulletRealAt_def)
qed

lemma keeps_real: "keeps this w (positionBulletRealAt this k g c w)"
  by (simp add: keeps_def positionBulletRealAt_keeps)

lemma setEntry_angle:
  assumes good: "\<forall>w w'. md w = Some w' \<longrightarrow> keeps this w w'"
    and s: "setEntry md (\<lambda>di. di\<lparr>autoRotateAngle := a\<rparr>) w = Some w'"
  shows "keeps this w w'"
proof (cases "(entry w)\<lparr>autoRotateAngle := a\<rparr> = entry w")
  case True
  have "setEntry md (\<lambda>di. di\<lparr>autoRotateAngle := a\<rparr>) w = Some w"
    unfolding setEntry_def using True by (simp only: simp_thms if_True)
  then have "w' = w" using s by simp
  then show ?thesis by (simp only: keeps_refl)
next
  case False
  let ?w = "w\<lparr>entry := (entry w)\<lparr>autoRotateAngle := a\<rparr>\<rparr>"
  have "setEntry md (\<lambda>di. di\<lparr>autoRotateAngle := a\<rparr>) w = md ?w"
    unfolding setEntry_def using False by (simp only: simp_thms if_False)
  then have "md ?w = Some w'" using s by simp
  then have k: "keeps this ?w w'" using good by blast
  have cl: "cachedLine this (entry ?w) = cachedLine this (entry w)"
    by (rule cachedLine_same) simp_all
  have cp: "cachedPolygon this (entry ?w) = cachedPolygon this (entry w)"
    by (rule cachedPolygon_same) simp_all
  have e: "lineDataItem (entry ?w) = lineDataItem (entry w)"
    "polygonDataItem (entry ?w) = polygonDataItem (entry w)"
    "frame (entry ?w) = frame (entry w)" "shape ?w = shape w" "scanLog ?w = scanLog w"
    by simp_all
  show ?thesis
    using k unfolding keeps_def cl cp e by blast
qed

lemma placeAt_keeps:
  assumes good: "\<forall>w w'. md w = Some w' \<longrightarrow> keeps this w w'"
    and p: "placeAt md ga this k line0 polygon w = Some w'"
  shows "keeps this w w'"
proof (cases "polygon = None \<and> line0 \<noteq> None \<and> isNumber (positionOnLine (entry w))
              \<and> chart this \<noteq> None \<and> truthy (autoRotate (entry w))")
  case False
  then show ?thesis
    using p
    by (auto simp: placeAt_def Let_def keeps_real keeps_refl
          split: option.splits if_splits Geometry.splits)
next
  case True
  then obtain ch where ch: "chart this = Some ch" by auto
  let ?p = "the (positionOnLine (entry w))"
  let ?a = "Some (ga (convert ch (positionToGeoPoint (the line0) (?p - 0.002)))
                     (convert ch (positionToGeoPoint (the line0) (?p + 0.002))))"
  let ?c = "geoCoordinates (positionToGeoPoint (the line0) ?p)"
  have e: "placeAt md ga this k line0 polygon w =
             (case setEntry md (\<lambda>di. di\<lparr>autoRotateAngle := ?a\<rparr>) w of
                None \<Rightarrow> None
              | Some w1 \<Rightarrow> Some (positionBulletRealAt this k (Point ?c) ?c w1))"
    using True ch by (simp add: placeAt_def Let_def)
  obtain w1 where w1: "setEntry md (\<lambda>di. di\<lparr>autoRotateAngle := ?a\<rparr>) w = Some w1"
    and w': "w' = positionBulletRealAt this k (Point ?c) ?c w1"
    using p e by (cases "setEntry md (\<lambda>di. di\<lparr>autoRotateAngle := ?a\<rparr>) w") simp_all
  have "keeps this w w1" by (rule setEntry_angle [OF good w1])
  moreover have "keeps this w1 w'" using w' keeps_real by simp
  ultimately show ?thesis by (rule keeps_trans)
qed

lemma step_keeps:
  assumes good: "\<forall>w w'. md w = Some w' \<longrightarrow> keeps this w w'"
    and s: "positionBulletStep md ga this k w = Some w'"
  shows "keeps this w w'"
proof (cases "length (entryBullets w) \<le> k \<or> sprite (entryBullets w ! k) = None")
  case True
  then have "w' = w" using s by (auto simp: positionBulletStep_def split: option.splits)
  then show ?thesis by (simp add: keeps_refl)
next
  case False
  then obtain w1 line0 w2 polygon where
    a: "resolveLineAt md (chart this) w = Some (w1, line0)"
    and b: "resolvePolygonAt md (chart this) w1 = Some (w2, polygon)"
    and c: "placeAt md ga this k line0 polygon w2 = Some w'"
    using s by (auto simp: positionBulletStep_def split: option.splits if_splits)
  have "keeps this w w1" using resolveLineAt_result [OF good a] by simp
  moreover have "keeps this w1 w2" using resolvePolygonAt_result [OF good b] by simp
  moreover have "keeps this w2 w'" by (rule placeAt_keeps [OF good c])
  ultimately show ?thesis using keeps_trans by blast
qed

lemma fold_positionOne_None:
  "fold (\<lambda>k r. case r of None \<Rightarrow> None | Some w' \<Rightarrow> pb k w') ks None = None"
  by (induction ks) simp_all

lemma fold_positionOne_keeps:
  assumes good: "\<forall>k w w'. pb k w = Some w' \<longrightarrow> keeps this w w'"
  shows "fold (\<lambda>k r. case r of None \<Rightarrow> None | Some w' \<Rightarrow> pb k w') ks (Some w) = Some w' \<Longrightarrow>
         keeps this w w'"
proof (induction ks arbitrary: w)
  case Nil
  then show ?case by (simp add: keeps_refl)
next
  case (Cons k ks)
  obtain w1 where w1: "pb k w = Some w1"
    using Cons.prems by (cases "pb k w") (simp_all add: fold_positionOne_None)
  have "keeps this w w1" using good w1 by blast
  moreover have "keeps this w1 w'" using Cons.IH Cons.prems w1 by simp
  ultimately show ?case by (rule keeps_trans)
qed

lemma markDirtyValues_keeps:
  assumes good: "\<forall>k w w'. pb k w = Some w' \<longrightarrow> keeps this w w'"
    and m: "markDirtyValues pb w = Some w'"
  shows "keeps this w w'"
  using fold_positionOne_keeps [OF good] m
  by (simp add: markDirtyValues_def positionBullets_def each_def)

lemma positionBulletAt_keeps:
  "positionBulletAt n ga this k w = Some w' \<Longrightarrow> keeps this w w'"
proof (induction n arbitrary: k w w')
  case 0
  then show ?case by simp
next
  case (Suc n)
  have good: "\<forall>w w'. markDirtyValues (positionBulletAt n ga this) w = Some w' \<longrightarrow> keeps this w w'"
    using markDirtyValues_keeps [of "positionBulletAt n ga this" this] Suc.IH by blast
  show ?case
    using step_keeps [OF good] Suc.prems by simp
qed

lemma shape_nth:
  assumes "shape w' = shape w" and "k < length (entryBullets w)"
  shows "k < length (entryBullets w')"
    and "(sprite (entryBullets w' ! k) = None) = (sprite (entryBullets w ! k) = None)"
    and "bullet_index (entryBullets w' ! k) = bullet_index (entryBullets w ! k)"
proof -
  have l: "length (entryBullets w') = length (entryBullets w)"
    using assms(1) unfolding shape_def by (rule map_eq_imp_length_eq)
  show k: "k < length (entryBullets w')" using l assms(2) by simp
  have "shape w' ! k = shape w ! k" using assms(1) by simp
  then have "(sprite (entryBullets w' ! k) = None, bullet_index (entryBullets w' ! k)) =
             (sprite (entryBullets w ! k) = None, bullet_index (entryBullets w ! k))"
    using k assms(2) by (simp add: shape_def)
  then show "(sprite (entryBullets w' ! k) = None) = (sprite (entryBullets w ! k) = None)"
    and "bullet_index (entryBullets w' ! k) = bullet_index (entryBullets w ! k)"
    by simp_all
qed

lemma realAt_position:
  assumes "k < length (entryBullets w)" and "sprite (entryBullets w ! k) \<noteq> None"
    and "chart this = Some ch" and "projection ch c = Some xy"
  shows "map_option position (sprite (entryBullets (positionBulletRealAt this k g c w) ! k)) =
           Some (Some (fst xy), Some (snd xy))"
proof -
  obtain sp where sp: "sprite (entryBullets w ! k) = Some sp" using assms(2) by auto
  show ?thesis
    using assms(1,3,4) sp
    by (simp add: positionBulletRealAt_def position_positionBulletReal [where ch = ch] projected_def)
qed

lemma step_stages:
  assumes good: "\<forall>w w'. md w = Some w' \<longrightarrow> keeps this w w'"
    and k: "k < length (entryBullets w)" and sp: "sprite (entryBullets w ! k) \<noteq> None"
    and s: "positionBulletStep md ga this k w = Some w'"
  shows "\<exists>w2. keeps this w w2
           \<and> placeAt md ga this k (resolvedLine this (entry w)) (resolvedPolygon this (entry w)) w2 = Some w'"
proof -
  obtain w1 line0 w2 polygon where
    a: "resolveLineAt md (chart this) w = Some (w1, line0)"
    and b: "resolvePolygonAt md (chart this) w1 = Some (w2, polygon)"
    and c: "placeAt md ga this k line0 polygon w2 = Some w'"
    using s k sp by (auto simp: positionBulletStep_def split: option.splits if_splits)
  note ra = resolveLineAt_result [OF good a]
  note rb = resolvePolygonAt_result [OF good b]
  have "resolvedPolygon this (entry w1) = resolvedPolygon this (entry w)"
    using ra by (intro resolvedPolygon_kept) (simp_all add: keeps_def)
  then have "polygon = resolvedPolygon this (entry w)" using rb by simp
  moreover have "line0 = resolvedLine this (entry w)" using ra by simp
  moreover have "keeps this w w2" using ra rb keeps_trans by blast
  ultimately show ?thesis using c by blast
qed

lemma step_polygon:
  assumes good: "\<forall>w w'. md w = Some w' \<longrightarrow> keeps this w w'"
    and k: "k < length (entryBullets w)" and sp: "sprite (entryBullets w ! k) \<noteq> None"
    and ch: "chart this = Some ch"
    and pg: "resolvedPolygon this (entry w) = Some pg"
    and xy: "projection ch (geoCoordinates (visualCentroid pg)) = Some xy"
    and s: "positionBulletStep md ga this k w = Some w'"
  shows "map_option position (sprite (entryBullets w' ! k)) = Some (Some (fst xy), Some (snd xy))"
proof -
  obtain w2 where w2: "keeps this w w2"
    and p: "placeAt md ga this k (resolvedLine this (entry w)) (Some pg) w2 = Some w'"
    using step_stages [OF good k sp s] pg by auto
  have sh: "shape w2 = shape w" using w2 by (simp add: keeps_def)
  have w': "w' = positionBulletRealAt this k (Point (geoCoordinates (visualCentroid pg)))
                   (geoCoordinates (visualCentroid pg)) w2"
    using p by (simp add: placeAt_def Let_def)
  show ?thesis
    unfolding w'
    using shape_nth [OF sh k] sp ch xy by (intro realAt_position) simp_all
qed

lemma step_lonlat:
  assumes good: "\<forall>w w'. md w = Some w' \<longrightarrow> keeps this w w'"
    and k: "k < length (entryBullets w)" and sp: "sprite (entryBullets w ! k) \<noteq> None"
    and ch: "chart this = Some ch"
    and pg: "resolvedPolygon this (entry w) = None" and ln: "resolvedLine this (entry w) = None"
    and lo: "longitude (entry w) = Some lo" and la: "latitude (entry w) = Some la"
    and xy: "projection ch (lo, la) = Some xy"
    and s: "positionBulletStep md ga this k w = Some w'"
  shows "map_option position (sprite (entryBullets w' ! k)) = Some (Some (fst xy), Some (snd xy))"
proof -
  obtain w2 where w2: "keeps this w w2"
    and p: "placeAt md ga this k None None w2 = Some w'"
    using step_stages [OF good k sp s] pg ln by auto
  have sh: "shape w2 = shape w" using w2 by (simp add: keeps_def)
  have "frame (entry w2) = frame (entry w)" using w2 by (simp add: keeps_def)
  then have "longitude (entry w2) = Some lo" and "latitude (entry w2) = Some la"
    using lo la by (simp_all add: frame_def)
  then have w': "w' = positionBulletRealAt this k (Point (lo, la)) (lo, la) w2"
    using p by (simp add: placeAt_def Let_def isNumber_def)
  show ?thesis
    unfolding w'
    using shape_nth [OF sh k] sp ch xy by (intro realAt_position) simp_all
qed

lemma setEntry_total:
  "md (w\<lparr>entry := f (entry w)\<rparr>) \<noteq> None \<Longrightarrow> \<exists>w1. setEntry md f w = Some w1"
  by (cases "f (entry w) = entry w") (auto simp: setEntry_def)

lemma keeps_settledLine:
  "keeps this w w' \<Longrightarrow> settledLine this (entry w) \<Longrightarrow> settledLine this (entry w')"
  unfolding settledLine_def keeps_def
  using cachedLine_same [of "entry w'" "entry w" this] by auto

lemma keeps_settledPolygon:
  "keeps this w w' \<Longrightarrow> settledPolygon this (entry w) \<Longrightarrow> settledPolygon this (entry w')"
  unfolding settledPolygon_def keeps_def
  using cachedPolygon_same [of "entry w'" "entry w" this] by auto

lemma fold_lineCallbackAt_nomatch:
  "lineMatches lid ss = [] \<Longrightarrow> fold (lineCallbackAt md lid) ss (Some (w, line0)) = Some (w, line0)"
proof (induction ss)
  case Nil
  show ?case by simp
next
  case (Cons s ss)
  then show ?case
    by (cases s) (auto split: option.splits)
qed

lemma fold_polygonCallbackAt_nomatch:
  "polygonMatches pid ss = [] \<Longrightarrow> fold (polygonCallbackAt md pid) ss (Some (w, pg0)) = Some (w, pg0)"
proof (induction ss)
  case Nil
  show ?case by simp
next
  case (Cons s ss)
  then show ?case
    by (cases s) (auto split: option.splits)
qed

lemma resolveLineAt_settled:
  assumes "settledLine this (entry w)"
  shows "\<exists>w1. resolveLineAt md (chart this) w = Some (w1, resolvedLine this (entry w))
           \<and> entry w1 = entry w \<and> entryBullets w1 = entryBullets w"
proof (cases "lineDataItem (entry w)")
  case (Some l)
  then show ?thesis by (simp add: resolveLineAt_def resolvedLine_cases)
next
  case None
  show ?thesis
  proof (cases "chart this")
    case n: None
    then show ?thesis using None by (simp add: resolveLineAt_def resolvedLine_cases)
  next
    case (Some ch)
    show ?thesis
    proof (cases "truthyString (lineId (entry w))")
      case False
      then show ?thesis using None Some by (simp add: resolveLineAt_def resolvedLine_cases)
    next
      case True
      then have m: "lineMatches (the (lineId (entry w))) (series ch) = []"
        using assms None Some
        by (auto simp: settledLine_def cachedLine_cases split: list.splits)
      show ?thesis
        using None Some True m
        by (simp add: resolveLineAt_def resolvedLine_cases each_def fold_lineCallbackAt_nomatch)
    qed
  qed
qed

lemma resolvePolygonAt_settled:
  assumes "settledPolygon this (entry w)"
  shows "\<exists>w1. resolvePolygonAt md (chart this) w = Some (w1, resolvedPolygon this (entry w))
           \<and> entry w1 = entry w \<and> entryBullets w1 = entryBullets w"
proof (cases "polygonDataItem (entry w)")
  case (Some l)
  then show ?thesis by (simp add: resolvePolygonAt_def resolvedPolygon_cases)
next
  case None
  show ?thesis
  proof (cases "chart this")
    case n: None
    then show ?thesis using None by (simp add: resolvePolygonAt_def resolvedPolygon_cases)
  next
    case (Some ch)
    show ?thesis
    proof (cases "truthyString (polygonId (entry w))")
      case False
      then show ?thesis using None Some by (simp add: resolvePolygonAt_def resolvedPolygon_cases)
    next
      case True
      then have m: "polygonMatches (the (polygonId (entry w))) (series ch) = []"
        using assms None Some
        by (auto simp: settledPolygon_def cachedPolygon_cases split: list.splits)
      show ?thesis
        using None Some True m
        by (simp add: resolvePolygonAt_def resolvedPolygon_cases each_def fold_polygonCallbackAt_nomatch)
    qed
  qed
qed

lemma lineFold_total:
  assumes tot: "\<forall>w. settledLine this (entry w) \<longrightarrow> md w \<noteq> None"
  shows "fold (lineCallbackAt md lid) ss (Some (w, line0)) \<noteq> None"
proof (induction ss arbitrary: w line0)
  case Nil
  show ?case by simp
next
  case (Cons s ss)
  show ?case
  proof (cases s)
    case (MapLineSeries g)
    show ?thesis
    proof (cases "g lid")
      case None
      then show ?thesis using Cons.IH MapLineSeries by simp
    next
      case (Some l)
      have "settledLine this ((entry w)\<lparr>lineDataItem := Some l\<rparr>)"
        by (simp add: settledLine_def cachedLine_set)
      then have "md (w\<lparr>entry := (entry w)\<lparr>lineDataItem := Some l\<rparr>\<rparr>) \<noteq> None"
        using tot by simp
      then obtain w1 where "setEntry md (\<lambda>di. di\<lparr>lineDataItem := Some l\<rparr>) w = Some w1"
        using setEntry_total [where md = md and w = w and f = "\<lambda>di. di\<lparr>lineDataItem := Some l\<rparr>"] by auto
      then show ?thesis using Cons.IH MapLineSeries Some by simp
    qed
  next
    case (MapPolygonSeries g)
    then show ?thesis using Cons.IH by simp
  next
    case OtherSeries
    then show ?thesis using Cons.IH by simp
  qed
qed

lemma polygonFold_total:
  assumes good: "\<forall>w w'. md w = Some w' \<longrightarrow> keeps this w w'"
    and tot: "\<forall>w. settledLine this (entry w) \<and> settledPolygon this (entry w) \<longrightarrow> md w \<noteq> None"
  shows "settledLine this (entry w) \<Longrightarrow> fold (polygonCallbackAt md pid) ss (Some (w, pg0)) \<noteq> None"
proof (induction ss arbitrary: w pg0)
  case Nil
  show ?case by simp
next
  case (Cons s ss)
  show ?case
  proof (cases s)
    case (MapPolygonSeries g)
    show ?thesis
    proof (cases "g pid")
      case None
      then show ?thesis using Cons.IH Cons.prems MapPolygonSeries by simp
    next
      case (Some l)
      let ?w = "w\<lparr>entry := (entry w)\<lparr>polygonDataItem := Some l\<rparr>\<rparr>"
      have sl: "settledLine this (entry ?w)"
        using Cons.prems cachedLine_same [of "entry ?w" "entry w" this]
        by (simp add: settledLine_def)
      have "settledPolygon this (entry ?w)"
        by (simp add: settledPolygon_def cachedPolygon_set)
      then have "md ?w \<noteq> None" using tot sl by blast
      then obtain w1 where w1: "setEntry md (\<lambda>di. di\<lparr>polygonDataItem := Some l\<rparr>) w = Some w1"
        using setEntry_total [where md = md and w = w and f = "\<lambda>di. di\<lparr>polygonDataItem := Some l\<rparr>"] by auto
      have "w1 = w \<or> keeps this ?w w1"
        using w1 good by (auto simp: setEntry_def split: if_splits)
      then have "settledLine this (entry w1)"
        using Cons.prems sl keeps_settledLine by blast
      then show ?thesis using Cons.IH w1 MapPolygonSeries Some by simp
    qed
  next
    case (MapLineSeries g)
    then show ?thesis using Cons.IH Cons.prems by simp
  next
    case OtherSeries
    then show ?thesis using Cons.IH Cons.prems by simp
  qed
qed

lemma resolveLineAt_total:
  assumes "settledLine this (entry w) \<or> (\<forall>w. settledLine this (entry w) \<longrightarrow> md w \<noteq> None)"
  shows "resolveLineAt md (chart this) w \<noteq> None"
proof (cases "settledLine this (entry w)")
  case True
  then show ?thesis using resolveLineAt_settled [of this w md] by auto
next
  case False
  then have tot: "\<forall>w. settledLine this (entry w) \<longrightarrow> md w \<noteq> None" using assms by simp
  show ?thesis
    using lineFold_total [OF tot]
    by (simp add: resolveLineAt_def each_def split: option.splits)
qed

lemma resolvePolygonAt_total:
  assumes good: "\<forall>w w'. md w = Some w' \<longrightarrow> keeps this w w'"
    and sl: "settledLine this (entry w)"
    and "settledPolygon this (entry w)
         \<or> (\<forall>w. settledLine this (entry w) \<and> settledPolygon this (entry w) \<longrightarrow> md w \<noteq> None)"
  shows "resolvePolygonAt md (chart this) w \<noteq> None"
proof (cases "settledPolygon this (entry w)")
  case True
  then show ?thesis using resolvePolygonAt_settled [of this w md] by auto
next
  case False
  then have tot: "\<forall>w. settledLine this (entry w) \<and> settledPolygon this (entry w) \<longrightarrow> md w \<noteq> None"
    using assms by simp
  have "settledLine this (entry (w\<lparr>scanLog := l\<rparr>))" for l using sl by simp
  then show ?thesis
    using polygonFold_total [OF good tot]
    by (simp add: resolvePolygonAt_def each_def split: option.splits)
qed

lemma placeAt_total:
  assumes "angleWrite ga this (entry w) = entry w
           \<or> md (w\<lparr>entry := angleWrite ga this (entry w)\<rparr>) \<noteq> None"
  shows "placeAt md ga this k (resolvedLine this (entry w)) (resolvedPolygon this (entry w)) w \<noteq> None"
proof (cases "resolvedPolygon this (entry w) = None \<and> resolvedLine this (entry w) \<noteq> None
              \<and> isNumber (positionOnLine (entry w)) \<and> chart this \<noteq> None
              \<and> truthy (autoRotate (entry w))")
  case False
  then show ?thesis
    by (auto simp: placeAt_def Let_def split: option.splits Geometry.splits)
next
  case True
  then obtain ch where ch: "chart this = Some ch" by auto
  let ?p = "the (positionOnLine (entry w))"
  let ?l = "the (resolvedLine this (entry w))"
  let ?a = "Some (ga (convert ch (positionToGeoPoint ?l (?p - 0.002)))
                     (convert ch (positionToGeoPoint ?l (?p + 0.002))))"
  let ?c = "geoCoordinates (positionToGeoPoint ?l ?p)"
  have e: "placeAt md ga this k (resolvedLine this (entry w)) (resolvedPolygon this (entry w)) w =
             (case setEntry md (\<lambda>di. di\<lparr>autoRotateAngle := ?a\<rparr>) w of
                None \<Rightarrow> None
              | Some w1 \<Rightarrow> Some (positionBulletRealAt this k (Point ?c) ?c w1))"
    using True ch by (simp add: placeAt_def Let_def)
  have a: "angleWrite ga this (entry w) = (entry w)\<lparr>autoRotateAngle := ?a\<rparr>"
    using True ch by (simp add: angleWrite_def)
  have "\<exists>w1. setEntry md (\<lambda>di. di\<lparr>autoRotateAngle := ?a\<rparr>) w = Some w1"
  proof (cases "(entry w)\<lparr>autoRotateAngle := ?a\<rparr> = entry w")
    case t: True
    have "setEntry md (\<lambda>di. di\<lparr>autoRotateAngle := ?a\<rparr>) w = Some w"
      unfolding setEntry_def using t by (simp only: simp_thms if_True)
    then show ?thesis by blast
  next
    case f: False
    then have "md (w\<lparr>entry := (entry w)\<lparr>autoRotateAngle := ?a\<rparr>\<rparr>) \<noteq> None"
      using assms a by simp
    then show ?thesis
      using setEntry_total [where md = md and w = w and f = "\<lambda>di. di\<lparr>autoRotateAngle := ?a\<rparr>"]
      by simp
  qed
  then show ?thesis using e by auto
qed

lemma placeAt_settled:
  assumes "angleWrite ga this (entry w) = entry w"
  shows "\<exists>w'. placeAt md ga this k (resolvedLine this (entry w)) (resolvedPolygon this (entry w)) w = Some w'
           \<and> entry w' = entry w"
proof (cases "resolvedPolygon this (entry w) = None \<and> resolvedLine this (entry w) \<noteq> None
              \<and> isNumber (positionOnLine (entry w)) \<and> chart this \<noteq> None
              \<and> truthy (autoRotate (entry w))")
  case False
  then show ?thesis
    by (auto simp: placeAt_def Let_def positionBulletRealAt_keeps split: option.splits Geometry.splits)
next
  case True
  then obtain ch where ch: "chart this = Some ch" by auto
  let ?p = "the (positionOnLine (entry w))"
  let ?l = "the (resolvedLine this (entry w))"
  let ?a = "Some (ga (convert ch (positionToGeoPoint ?l (?p - 0.002)))
                     (convert ch (positionToGeoPoint ?l (?p + 0.002))))"
  let ?c = "geoCoordinates (positionToGeoPoint ?l ?p)"
  have e: "placeAt md ga this k (resolvedLine this (entry w)) (resolvedPolygon this (entry w)) w =
             (case setEntry md (\<lambda>di. di\<lparr>autoRotateAngle := ?a\<rparr>) w of
                None \<Rightarrow> None
              | Some w1 \<Rightarrow> Some (positionBulletRealAt this k (Point ?c) ?c w1))"
    using True ch by (simp add: placeAt_def Let_def)
  have a: "(entry w)\<lparr>autoRotateAngle := ?a\<rparr> = entry w"
    using True ch assms by (simp add: angleWrite_def)
  have "setEntry md (\<lambda>di. di\<lparr>autoRotateAngle := ?a\<rparr>) w = Some w"
    unfolding setEntry_def using a by (simp only: simp_thms if_True)
  then show ?thesis using e by (simp add: positionBulletRealAt_keeps)
qed

lemma settled_angleWrite:
  assumes "settledLine this e" and "settledPolygon this e"
  shows "settled ga this (angleWrite ga this e)"
proof -
  let ?e = "angleWrite ga this e"
  have f: "frame ?e = frame e" and l: "lineDataItem ?e = lineDataItem e"
    and p: "polygonDataItem ?e = polygonDataItem e"
    by (simp_all add: angleWrite_def split: option.splits)
  have rl: "resolvedLine this ?e = resolvedLine this e"
    using f l by (intro resolvedLine_kept) simp_all
  have rp: "resolvedPolygon this ?e = resolvedPolygon this e"
    using f p by (intro resolvedPolygon_kept) simp_all
  have sl: "settledLine this ?e"
    using assms(1) cachedLine_same [OF f l] l by (simp add: settledLine_def)
  have sp: "settledPolygon this ?e"
    using assms(2) cachedPolygon_same [OF f p] p by (simp add: settledPolygon_def)
  have fr: "positionOnLine ?e = positionOnLine e" "autoRotate ?e = autoRotate e"
    using f by (simp_all add: frame_def)
  have "angleWrite ga this ?e = ?e"
    unfolding angleWrite_def [of ga this ?e] rl rp fr
    by (simp add: angleWrite_def split: option.splits)
  then show ?thesis using sl sp by (simp add: settled_def)
qed

lemma step_settled:
  assumes "settled ga this (entry w)"
  shows "\<exists>w'. positionBulletStep md ga this k w = Some w' \<and> entry w' = entry w"
proof (cases "length (entryBullets w) \<le> k \<or> sprite (entryBullets w ! k) = None")
  case True
  then show ?thesis by (auto simp: positionBulletStep_def)
next
  case False
  obtain w1 where a: "resolveLineAt md (chart this) w = Some (w1, resolvedLine this (entry w))"
    and e1: "entry w1 = entry w"
    using resolveLineAt_settled [of this w md] assms by (auto simp: settled_def)
  obtain w2 where b: "resolvePolygonAt md (chart this) w1 = Some (w2, resolvedPolygon this (entry w))"
    and e2: "entry w2 = entry w"
    using resolvePolygonAt_settled [of this w1 md] assms e1 by (auto simp: settled_def)
  obtain w' where c: "placeAt md ga this k (resolvedLine this (entry w)) (resolvedPolygon this (entry w)) w2 = Some w'"
    and e3: "entry w' = entry w"
    using placeAt_settled [of ga this w2 md k] assms e2 by (auto simp: settled_def)
  show ?thesis
    using False a b c e3 by (auto simp: positionBulletStep_def)
qed

lemma step_total:
  assumes good: "\<forall>w w'. md w = Some w' \<longrightarrow> keeps this w w'"
    and tot1: "\<forall>w. settled ga this (entry w) \<longrightarrow> md w \<noteq> None"
    and tot3: "settledLine this (entry w) \<or> (\<forall>w. settledLine this (entry w) \<longrightarrow> md w \<noteq> None)"
    and tot2: "settledPolygon this (entry w)
         \<or> (\<forall>w. settledLine this (entry w) \<and> settledPolygon this (entry w) \<longrightarrow> md w \<noteq> None)"
  shows "positionBulletStep md ga this k w \<noteq> None"
proof (cases "length (entryBullets w) \<le> k \<or> sprite (entryBullets w ! k) = None")
  case True
  then show ?thesis by (auto simp: positionBulletStep_def)
next
  case False
  obtain w1 line0 where a: "resolveLineAt md (chart this) w = Some (w1, line0)"
    using resolveLineAt_total [of this w md] tot3 by auto
  note ra = resolveLineAt_result [OF good a]
  have k1: "keeps this w w1" using ra by simp
  have f1: "frame (entry w1) = frame (entry w)" using k1 by (simp add: keeps_def)
  have sl1: "settledLine this (entry w1)"
    using ra cachedLine_again [OF f1] by (simp add: settledLine_def)
  have t2: "settledPolygon this (entry w1)
         \<or> (\<forall>w. settledLine this (entry w) \<and> settledPolygon this (entry w) \<longrightarrow> md w \<noteq> None)"
    using tot2 keeps_settledPolygon [OF k1] by blast
  obtain w2 polygon where b: "resolvePolygonAt md (chart this) w1 = Some (w2, polygon)"
    using resolvePolygonAt_total [OF good sl1 t2] by auto
  note rb = resolvePolygonAt_result [OF good b]
  have k2: "keeps this w1 w2" using rb by simp
  have f2: "frame (entry w2) = frame (entry w1)" using k2 by (simp add: keeps_def)
  have sl2: "settledLine this (entry w2)" using keeps_settledLine [OF k2 sl1] .
  have sp2: "settledPolygon this (entry w2)"
    using rb cachedPolygon_again [OF f2] by (simp add: settledPolygon_def)
  have k02: "keeps this w w2" using k1 k2 by (rule keeps_trans)
  have l: "line0 = resolvedLine this (entry w2)"
    using ra resolvedLine_kept [of "entry w2" "entry w" this] k02 by (simp add: keeps_def)
  have p: "polygon = resolvedPolygon this (entry w2)"
    using rb resolvedPolygon_kept [of "entry w2" "entry w1" this] k2 by (simp add: keeps_def)
  have "settled ga this (angleWrite ga this (entry w2))"
    using sl2 sp2 by (rule settled_angleWrite)
  then have "md (w2\<lparr>entry := angleWrite ga this (entry w2)\<rparr>) \<noteq> None"
    using tot1 by simp
  then have "placeAt md ga this k line0 polygon w2 \<noteq> None"
    unfolding l p by (intro placeAt_total) simp
  then show ?thesis
    using False a b by (auto simp: positionBulletStep_def)
qed

lemma markDirtyValues_total:
  assumes tot: "\<forall>k w. C w \<longrightarrow> pb k w \<noteq> None"
    and inv: "\<forall>k w w'. C w \<longrightarrow> pb k w = Some w' \<longrightarrow> C w'"
  shows "C w \<Longrightarrow> markDirtyValues pb w \<noteq> None"
proof -
  have "C w \<Longrightarrow> fold (\<lambda>k r. case r of None \<Rightarrow> None | Some w' \<Rightarrow> pb k w') ks (Some w) \<noteq> None" for ks
  proof (induction ks arbitrary: w)
    case Nil
    show ?case by simp
  next
    case (Cons k ks)
    obtain w1 where w1: "pb k w = Some w1" using tot Cons.prems by blast
    then have "C w1" using inv Cons.prems by blast
    then show ?case using Cons.IH w1 by simp
  qed
  then show "C w \<Longrightarrow> markDirtyValues pb w \<noteq> None"
    by (simp add: markDirtyValues_def positionBullets_def each_def)
qed

lemma good_markDirtyValues:
  "\<forall>w w'. markDirtyValues (positionBulletAt n ga this) w = Some w' \<longrightarrow> keeps this w w'"
  using markDirtyValues_keeps [of "positionBulletAt n ga this" this] positionBulletAt_keeps by blast

lemma level1:
  "settled ga this (entry w) \<Longrightarrow>
   \<exists>w'. positionBulletAt (Suc n) ga this k w = Some w' \<and> entry w' = entry w"
  using step_settled [of ga this w] by simp

lemma md1:
  "settled ga this (entry w) \<Longrightarrow> markDirtyValues (positionBulletAt (Suc n) ga this) w \<noteq> None"
proof (rule markDirtyValues_total [where C = "\<lambda>w. settled ga this (entry w)"])
  show "\<forall>k w. settled ga this (entry w) \<longrightarrow> positionBulletAt (Suc n) ga this k w \<noteq> None"
  proof (intro allI impI)
    fix k and w :: World
    assume s: "settled ga this (entry w)"
    show "positionBulletAt (Suc n) ga this k w \<noteq> None" using level1 [OF s, of n k] by auto
  qed
  show "\<forall>k w w'. settled ga this (entry w) \<longrightarrow> positionBulletAt (Suc n) ga this k w = Some w' \<longrightarrow>
          settled ga this (entry w')"
  proof (intro allI impI)
    fix k and w w' :: World
    assume s: "settled ga this (entry w)" and r: "positionBulletAt (Suc n) ga this k w = Some w'"
    have "entry w' = entry w" using level1 [OF s, of n k] r by auto
    then show "settled ga this (entry w')" using s by simp
  qed
qed

lemma level2:
  assumes "settledLine this (entry w)" and "settledPolygon this (entry w)"
  shows "positionBulletAt (Suc (Suc n)) ga this k w \<noteq> None"
proof -
  have t1: "\<forall>w. settled ga this (entry w) \<longrightarrow>
              markDirtyValues (positionBulletAt (Suc n) ga this) w \<noteq> None"
    using md1 by blast
  show ?thesis
    using step_total [where md = "markDirtyValues (positionBulletAt (Suc n) ga this)" and ga = ga
        and this = this and w = w and k = k, OF good_markDirtyValues t1] assms
    by simp
qed

lemma md2:
  assumes "settledLine this (entry w)" and "settledPolygon this (entry w)"
  shows "markDirtyValues (positionBulletAt (Suc (Suc n)) ga this) w \<noteq> None"
proof (rule markDirtyValues_total
    [where C = "\<lambda>w. settledLine this (entry w) \<and> settledPolygon this (entry w)"])
  show "\<forall>k w. settledLine this (entry w) \<and> settledPolygon this (entry w) \<longrightarrow>
          positionBulletAt (Suc (Suc n)) ga this k w \<noteq> None"
    using level2 by blast
  show "\<forall>k w w'. settledLine this (entry w) \<and> settledPolygon this (entry w) \<longrightarrow>
          positionBulletAt (Suc (Suc n)) ga this k w = Some w' \<longrightarrow>
          settledLine this (entry w') \<and> settledPolygon this (entry w')"
    using positionBulletAt_keeps keeps_settledLine keeps_settledPolygon by blast
  show "settledLine this (entry w) \<and> settledPolygon this (entry w)" using assms by simp
qed

lemma level3:
  assumes "settledLine this (entry w)"
  shows "positionBulletAt (Suc (Suc (Suc n))) ga this k w \<noteq> None"
proof -
  have t1: "\<forall>w. settled ga this (entry w) \<longrightarrow> markDirtyValues (positionBulletAt (Suc (Suc n)) ga this) w \<noteq> None"
    using md2 by (simp add: settled_def)
  have t2: "\<forall>w. settledLine this (entry w) \<and> settledPolygon this (entry w) \<longrightarrow>
              markDirtyValues (positionBulletAt (Suc (Suc n)) ga this) w \<noteq> None"
    using md2 by blast
  show ?thesis
    using step_total [where md = "markDirtyValues (positionBulletAt (Suc (Suc n)) ga this)"
        and ga = ga and this = this and w = w and k = k, OF good_markDirtyValues t1] assms t2
    by simp
qed

lemma md3:
  assumes "settledLine this (entry w)"
  shows "markDirtyValues (positionBulletAt (Suc (Suc (Suc n))) ga this) w \<noteq> None"
proof (rule markDirtyValues_total [where C = "\<lambda>w. settledLine this (entry w)"])
  show "\<forall>k w. settledLine this (entry w) \<longrightarrow> positionBulletAt (Suc (Suc (Suc n))) ga this k w \<noteq> None"
    using level3 by blast
  show "\<forall>k w w'. settledLine this (entry w) \<longrightarrow>
          positionBulletAt (Suc (Suc (Suc n))) ga this k w = Some w' \<longrightarrow> settledLine this (entry w')"
    using positionBulletAt_keeps keeps_settledLine by blast
  show "settledLine this (entry w)" using assms .
qed

lemma positionBulletAt_returns:
  "positionBulletAt (Suc (Suc (Suc (Suc n)))) ga this k w \<noteq> None"
proof -
  have t1: "\<forall>w. settled ga this (entry w) \<longrightarrow>
              markDirtyValues (positionBulletAt (Suc (Suc (Suc n))) ga this) w \<noteq> None"
    using md3 by (simp add: settled_def)
  have t3: "\<forall>w. settledLine this (entry w) \<longrightarrow>
              markDirtyValues (positionBulletAt (Suc (Suc (Suc n))) ga this) w \<noteq> None"
    using md3 by blast
  have t2: "\<forall>w. settledLine this (entry w) \<and> settledPolygon this (entry w) \<longrightarrow>
              markDirtyValues (positionBulletAt (Suc (Suc (Suc n))) ga this) w \<noteq> None"
    using md3 by blast
  show ?thesis
    using step_total [where md = "markDirtyValues (positionBulletAt (Suc (Suc (Suc n))) ga this)"
        and ga = ga and this = this and w = w and k = k, OF good_markDirtyValues t1] t2 t3
    by simp
qed

lemma enough_calls: "4 \<le> n \<Longrightarrow> \<exists>m. n = Suc (Suc (Suc (Suc m)))"
  by (rule exI [of _ "n - 4"]) simp

lemma upt_one: "[0 ..< Suc 0] = [0]"
  by simp






subsection \<open>The single pass and the nested calls\<close>

text \<open>
  What the single pass shows of the resolution, of the angle and of the coordinate of a
  bullet of a multi-point holds of the call with its nested calls as well: the reference
  cached is that of the last matching series, the angle and the rotation are those of the
  resolved line, and where the projection has an image the position is that image, since
  the outer call writes last.
\<close>

lemma step_stages_all:
  assumes good: "\<forall>w w'. md w = Some w' \<longrightarrow> keeps this w w'"
    and k: "k < length (entryBullets w)" and sp: "sprite (entryBullets w ! k) \<noteq> None"
    and s: "positionBulletStep md ga this k w = Some w'"
  shows "\<exists>w2. keeps this w w2
           \<and> lineDataItem (entry w2) = cachedLine this (entry w)
           \<and> polygonDataItem (entry w2) = cachedPolygon this (entry w)
           \<and> placeAt md ga this k (resolvedLine this (entry w)) (resolvedPolygon this (entry w)) w2 = Some w'"
proof -
  obtain w1 line0 w2 polygon where
    a: "resolveLineAt md (chart this) w = Some (w1, line0)"
    and b: "resolvePolygonAt md (chart this) w1 = Some (w2, polygon)"
    and c: "placeAt md ga this k line0 polygon w2 = Some w'"
    using s k sp by (auto simp: positionBulletStep_def split: option.splits if_splits)
  note ra = resolveLineAt_result [OF good a]
  note rb = resolvePolygonAt_result [OF good b]
  have k1: "keeps this w w1" and k2: "keeps this w1 w2" using ra rb by simp_all
  have f1: "frame (entry w1) = frame (entry w)" using k1 by (simp add: keeps_def)
  have p1: "polygonDataItem (entry w1) = polygonDataItem (entry w)
            \<or> polygonDataItem (entry w1) = cachedPolygon this (entry w)"
    using k1 by (simp add: keeps_def)
  have cp: "cachedPolygon this (entry w1) = cachedPolygon this (entry w)"
    using p1 f1 cachedPolygon_same cachedPolygon_again by blast
  have "resolvedPolygon this (entry w1) = resolvedPolygon this (entry w)"
    using f1 p1 by (rule resolvedPolygon_kept)
  then have pg: "polygon = resolvedPolygon this (entry w)" using rb by simp
  have ln: "line0 = resolvedLine this (entry w)" using ra by simp
  have l1: "lineDataItem (entry w1) = cachedLine this (entry w)" using ra by simp
  have l2: "lineDataItem (entry w2) = cachedLine this (entry w)"
  proof (cases "lineDataItem (entry w1)")
    case None
    then have "cachedLine this (entry w1) = None"
      using l1 cachedLine_again [OF f1 l1] by simp
    then show ?thesis using k2 None l1 by (auto simp: keeps_def)
  next
    case (Some l)
    then show ?thesis using k2 l1 by (auto simp: keeps_def cachedLine_set)
  qed
  have p2: "polygonDataItem (entry w2) = cachedPolygon this (entry w)"
    using rb cp by simp
  have "keeps this w w2" using k1 k2 by (rule keeps_trans)
  then show ?thesis using l2 p2 c ln pg by blast
qed

lemma keeps_set:
  assumes "keeps this w w'"
  shows "lineDataItem (entry w) \<noteq> None \<Longrightarrow> lineDataItem (entry w') = lineDataItem (entry w)"
    and "polygonDataItem (entry w) \<noteq> None \<Longrightarrow> polygonDataItem (entry w') = polygonDataItem (entry w)"
  using assms by (auto simp: keeps_def cachedLine_set cachedPolygon_set)

lemma nested_last_match:
  assumes k: "k < length (entryBullets w)" and sp: "sprite (entryBullets w ! k) \<noteq> None"
    and ch: "chart this = Some ch"
    and r: "positionBulletAt n ga this k w = Some w'"
  shows "(\<forall>lid. lineDataItem (entry w) = None \<and> lineId (entry w) = Some lid \<and> lid \<noteq> []
              \<and> lineMatches lid (series ch) \<noteq> [] \<longrightarrow>
            lineDataItem (entry w') = Some (last (lineMatches lid (series ch))))
       \<and> (\<forall>pid. polygonDataItem (entry w) = None \<and> polygonId (entry w) = Some pid \<and> pid \<noteq> []
              \<and> polygonMatches pid (series ch) \<noteq> [] \<longrightarrow>
            polygonDataItem (entry w') = Some (last (polygonMatches pid (series ch))))"
proof -
  obtain m where n: "n = Suc m" using r by (cases n) simp_all
  let ?md = "markDirtyValues (positionBulletAt m ga this)"
  have good: "\<forall>w w'. ?md w = Some w' \<longrightarrow> keeps this w w'" by (rule good_markDirtyValues)
  have s: "positionBulletStep ?md ga this k w = Some w'" using r n by simp
  obtain w2 where l2: "lineDataItem (entry w2) = cachedLine this (entry w)"
    and p2: "polygonDataItem (entry w2) = cachedPolygon this (entry w)"
    and p: "placeAt ?md ga this k (resolvedLine this (entry w)) (resolvedPolygon this (entry w)) w2 = Some w'"
    using step_stages_all [OF good k sp s] by blast
  have k2: "keeps this w2 w'" using placeAt_keeps [OF good p] .
  have a: "lineDataItem (entry w') = Some (last (lineMatches lid (series ch)))"
    if "lineDataItem (entry w) = None \<and> lineId (entry w) = Some lid \<and> lid \<noteq> []
              \<and> lineMatches lid (series ch) \<noteq> []" for lid
  proof -
    have "cachedLine this (entry w) = Some (last (lineMatches lid (series ch)))"
      using that ch by (auto simp: cachedLine_cases truthyString_def split: list.splits)
    then show ?thesis using l2 keeps_set(1) [OF k2] by simp
  qed
  have b: "polygonDataItem (entry w') = Some (last (polygonMatches pid (series ch)))"
    if "polygonDataItem (entry w) = None \<and> polygonId (entry w) = Some pid \<and> pid \<noteq> []
              \<and> polygonMatches pid (series ch) \<noteq> []" for pid
  proof -
    have "cachedPolygon this (entry w) = Some (last (polygonMatches pid (series ch)))"
      using that ch by (auto simp: cachedPolygon_cases truthyString_def split: list.splits)
    then show ?thesis using p2 keeps_set(2) [OF k2] by simp
  qed
  show ?thesis using a b by blast
qed

lemma settled_call_entry:
  "settled ga this (entry w) \<Longrightarrow> positionBulletAt n ga this k w = Some w' \<Longrightarrow> entry w' = entry w"
proof (cases n)
  case 0
  assume "positionBulletAt n ga this k w = Some w'"
  then show ?thesis using 0 by simp
next
  case (Suc m)
  assume s: "settled ga this (entry w)" and r: "positionBulletAt n ga this k w = Some w'"
  show ?thesis
    using step_settled [OF s, of "markDirtyValues (positionBulletAt m ga this)" k] r Suc by auto
qed

lemma settled_calls_entry:
  assumes "settled ga this (entry w)" and "markDirtyValues (positionBulletAt n ga this) w = Some w'"
  shows "entry w' = entry w"
proof -
  have "settled ga this (entry w) \<Longrightarrow>
        fold (\<lambda>k r. case r of None \<Rightarrow> None | Some w' \<Rightarrow> positionBulletAt n ga this k w') ks (Some w) = Some w' \<Longrightarrow>
        entry w' = entry w" for ks
  proof (induction ks arbitrary: w)
    case Nil
    then show ?case by simp
  next
    case (Cons j ks)
    obtain w1 where w1: "positionBulletAt n ga this j w = Some w1"
      using Cons.prems(2) by (cases "positionBulletAt n ga this j w") (simp_all add: fold_positionOne_None)
    have e: "entry w1 = entry w" using settled_call_entry [OF Cons.prems(1) w1] .
    then have "entry w' = entry w1" using Cons.IH [of w1] Cons.prems w1 by simp
    then show ?case using e by simp
  qed
  then show ?thesis
    using assms by (simp add: markDirtyValues_def positionBullets_def each_def)
qed

lemma realAt_rotation:
  assumes "k < length (entryBullets w)" and "sprite (entryBullets w ! k) \<noteq> None"
    and "chart this = Some ch" and "autoRotate (entry w) = Some True"
  shows "map_option sprite_rotation (sprite (entryBullets (positionBulletRealAt this k g c w) ! k)) =
           Some (Some (getOr (autoRotateAngle (entry w)) 0))"
proof -
  obtain sp where sp: "sprite (entryBullets w ! k) = Some sp" using assms(2) by auto
  show ?thesis
    using assms(1,3,4) sp
    by (simp add: positionBulletRealAt_def
          rotation_positionBulletReal [where ch = ch and di = "entry w"])
qed

lemma nested_autoRotate:
  assumes ch: "chart this = Some ch" and k: "k < length (entryBullets w)"
    and sp: "sprite (entryBullets w ! k) \<noteq> None"
    and pg: "resolvedPolygon this (entry w) = None" and ln: "resolvedLine this (entry w) = Some line0"
    and pos: "positionOnLine (entry w) = Some p" and ar: "autoRotate (entry w) = Some True"
    and r: "positionBulletAt n ga this k w = Some w'"
  shows "autoRotateAngle (entry w') =
           Some (ga (convert ch (positionToGeoPoint line0 (p - 0.002)))
                    (convert ch (positionToGeoPoint line0 (p + 0.002))))
       \<and> map_option sprite_rotation (sprite (entryBullets w' ! k)) =
           Some (Some (ga (convert ch (positionToGeoPoint line0 (p - 0.002)))
                          (convert ch (positionToGeoPoint line0 (p + 0.002)))))
       \<and> (\<forall>xy. projection ch (geoCoordinates (positionToGeoPoint line0 p)) = Some xy \<longrightarrow>
            map_option position (sprite (entryBullets w' ! k)) = Some (Some (fst xy), Some (snd xy)))"
proof -
  let ?a = "ga (convert ch (positionToGeoPoint line0 (p - 0.002)))
               (convert ch (positionToGeoPoint line0 (p + 0.002)))"
  let ?c = "geoCoordinates (positionToGeoPoint line0 p)"
  obtain m where n: "n = Suc m" using r by (cases n) simp_all
  let ?md = "markDirtyValues (positionBulletAt m ga this)"
  have good: "\<forall>w w'. ?md w = Some w' \<longrightarrow> keeps this w w'" by (rule good_markDirtyValues)
  have s: "positionBulletStep ?md ga this k w = Some w'" using r n by simp
  obtain w2 where k2: "keeps this w w2"
    and l2: "lineDataItem (entry w2) = cachedLine this (entry w)"
    and p2: "polygonDataItem (entry w2) = cachedPolygon this (entry w)"
    and pl: "placeAt ?md ga this k (Some line0) None w2 = Some w'"
    using step_stages_all [OF good k sp s] pg ln by auto
  have f2: "frame (entry w2) = frame (entry w)" and sh2: "shape w2 = shape w"
    using k2 by (simp_all add: keeps_def)
  have fr: "positionOnLine (entry w2) = Some p" "autoRotate (entry w2) = Some True"
    using f2 pos ar by (simp_all add: frame_def)
  have e: "placeAt ?md ga this k (Some line0) None w2 =
             (case setEntry ?md (\<lambda>di. di\<lparr>autoRotateAngle := Some ?a\<rparr>) w2 of
                None \<Rightarrow> None
              | Some w3 \<Rightarrow> Some (positionBulletRealAt this k (Point ?c) ?c w3))"
    using fr ch by (simp add: placeAt_def Let_def isNumber_def truthy_def)
  obtain w3 where w3: "setEntry ?md (\<lambda>di. di\<lparr>autoRotateAngle := Some ?a\<rparr>) w2 = Some w3"
    and w': "w' = positionBulletRealAt this k (Point ?c) ?c w3"
    using pl e by (cases "setEntry ?md (\<lambda>di. di\<lparr>autoRotateAngle := Some ?a\<rparr>) w2") simp_all
  have k3: "keeps this w2 w3" using setEntry_angle [OF good w3] .
  have sl: "settledLine this (entry w2)"
    using l2 cachedLine_again [OF f2 l2] by (simp add: settledLine_def)
  have sg: "settledPolygon this (entry w2)"
    using p2 cachedPolygon_again [OF f2 p2] by (simp add: settledPolygon_def)
  have rl: "resolvedLine this (entry w2) = Some line0"
    using resolvedLine_kept [of "entry w2" "entry w" this] k2 ln by (simp add: keeps_def)
  have rp: "resolvedPolygon this (entry w2) = None"
    using resolvedPolygon_kept [of "entry w2" "entry w" this] k2 pg by (simp add: keeps_def)
  have aw: "angleWrite ga this (entry w2) = (entry w2)\<lparr>autoRotateAngle := Some ?a\<rparr>"
    using rl rp fr ch by (simp add: angleWrite_def isNumber_def truthy_def)
  have a3: "autoRotateAngle (entry w3) = Some ?a"
  proof (cases "(entry w2)\<lparr>autoRotateAngle := Some ?a\<rparr> = entry w2")
    case True
    have "setEntry ?md (\<lambda>di. di\<lparr>autoRotateAngle := Some ?a\<rparr>) w2 = Some w2"
      unfolding setEntry_def using True by (simp only: simp_thms if_True)
    then have "w3 = w2" using w3 by simp
    moreover have "autoRotateAngle (entry w2) = Some ?a"
      using arg_cong [OF True, of autoRotateAngle] by simp
    ultimately show ?thesis by simp
  next
    case False
    let ?w = "w2\<lparr>entry := (entry w2)\<lparr>autoRotateAngle := Some ?a\<rparr>\<rparr>"
    have "setEntry ?md (\<lambda>di. di\<lparr>autoRotateAngle := Some ?a\<rparr>) w2 = ?md ?w"
      unfolding setEntry_def using False by (simp only: simp_thms if_False)
    then have m: "?md ?w = Some w3" using w3 by simp
    have "settled ga this (angleWrite ga this (entry w2))"
      using sl sg by (rule settled_angleWrite)
    then have "settled ga this (entry ?w)" using aw by simp
    then have "entry w3 = entry ?w" using m by (rule settled_calls_entry)
    then show ?thesis by simp
  qed
  have sh3: "shape w3 = shape w" using k3 sh2 by (simp add: keeps_def)
  have f3: "frame (entry w3) = frame (entry w)" using k3 f2 by (simp add: keeps_def)
  have ar3: "autoRotate (entry w3) = Some True" using f3 ar by (simp add: frame_def)
  have "map_option sprite_rotation (sprite (entryBullets w' ! k)) =
          Some (Some (getOr (autoRotateAngle (entry w3)) 0))"
    unfolding w'
    using shape_nth [OF sh3 k] sp ch ar3 by (intro realAt_rotation) simp_all
  moreover have "entry w' = entry w3" unfolding w' by (simp add: positionBulletRealAt_keeps)
  moreover have "map_option position (sprite (entryBullets w' ! k)) = Some (Some (fst xy), Some (snd xy))"
    if "projection ch ?c = Some xy" for xy
    unfolding w'
    using shape_nth [OF sh3 k] sp ch that by (intro realAt_position) simp_all
  ultimately show ?thesis using a3 by (simp add: getOr_def)
qed

lemma nested_multipoint:
  assumes ch: "chart this = Some ch" and k: "k < length (entryBullets w)"
    and sp: "sprite (entryBullets w ! k) \<noteq> None"
    and g: "geometry (entry w) = Some (MultiPoint cs)"
    and i: "bullet_index (entryBullets w ! k) = Some i" and il: "i < length cs"
    and pg: "resolvedPolygon this (entry w) = None"
    and ln: "resolvedLine this (entry w) = None \<or> positionOnLine (entry w) = None"
    and ll: "longitude (entry w) = None \<or> latitude (entry w) = None"
    and xy: "projection ch (cs ! i) = Some xy"
    and r: "positionBulletAt n ga this k w = Some w'"
  shows "map_option position (sprite (entryBullets w' ! k)) = Some (Some (fst xy), Some (snd xy))"
proof -
  obtain m where n: "n = Suc m" using r by (cases n) simp_all
  let ?md = "markDirtyValues (positionBulletAt m ga this)"
  have good: "\<forall>w w'. ?md w = Some w' \<longrightarrow> keeps this w w'" by (rule good_markDirtyValues)
  have s: "positionBulletStep ?md ga this k w = Some w'" using r n by simp
  obtain w2 where k2: "keeps this w w2"
    and pl: "placeAt ?md ga this k (resolvedLine this (entry w)) None w2 = Some w'"
    using step_stages [OF good k sp s] pg by auto
  have f2: "frame (entry w2) = frame (entry w)" and sh2: "shape w2 = shape w"
    using k2 by (simp_all add: keeps_def)
  have fr: "geometry (entry w2) = Some (MultiPoint cs)"
    "positionOnLine (entry w2) = positionOnLine (entry w)"
    "longitude (entry w2) = longitude (entry w)" "latitude (entry w2) = latitude (entry w)"
    using f2 g by (simp_all add: frame_def)
  have ix: "bullet_index (entryBullets w2 ! k) = Some i"
    using shape_nth(3) [OF sh2 k] i by simp
  have w': "w' = positionBulletRealAt this k (Point (cs ! i)) (cs ! i) w2"
    using pl fr ix il ln ll
    by (auto simp: placeAt_def Let_def isNumber_def getOr_def coordinateAt_def)
  show ?thesis
    unfolding w'
    using shape_nth [OF sh2 k] sp ch xy by (intro realAt_position) simp_all
qed

section \<open>The properties\<close>

text \<open>
  \<^bold>\<open>C1.\<close> Placement follows the fallback order, for every bullet of a data item that has
  a sprite, on a series with a chart, with the nested calls that the writes of the method
  trigger. When the data item resolves to a polygon (by \<open>polygonDataItem\<close> or by a scan for
  \<open>polygonId\<close>) and the projection has an image for the visual centroid of that polygon,
  the position of the sprite after the call is that image, whatever \<open>longitude\<close> and
  \<open>latitude\<close> of the data item are. When \<open>longitude\<close> and \<open>latitude\<close> are both set and the
  data item resolves to no line and to no polygon (it has no reference and no identifier,
  or an identifier that no series holds) and the projection has an image for
  \<open>(longitude, latitude)\<close>, the position after the call is that image. The call returns
  whenever at least four levels of calls are allowed. Where the projection has no image the
  call writes no position (C6).
\<close>

theorem placement_fallback_order:
  assumes "chart this = Some ch" and "k < length (entryBullets w)"
    and "sprite (entryBullets w ! k) \<noteq> None" and "4 \<le> n"
  shows "\<exists>w'. positionBulletAt n ga this k w = Some w'
       \<and> (\<forall>pg xy. resolvedPolygon this (entry w) = Some pg
              \<and> projection ch (geoCoordinates (visualCentroid pg)) = Some xy \<longrightarrow>
            map_option position (sprite (entryBullets w' ! k)) = Some (Some (fst xy), Some (snd xy)))
       \<and> (\<forall>lo la xy. longitude (entry w) = Some lo \<and> latitude (entry w) = Some la
              \<and> resolvedLine this (entry w) = None \<and> resolvedPolygon this (entry w) = None
              \<and> projection ch (lo, la) = Some xy \<longrightarrow>
            map_option position (sprite (entryBullets w' ! k)) = Some (Some (fst xy), Some (snd xy)))"
proof -
  obtain m where n: "n = Suc (Suc (Suc (Suc m)))"
    using assms(4) enough_calls by blast
  let ?md = "markDirtyValues (positionBulletAt (Suc (Suc (Suc m))) ga this)"
  obtain w' where w': "positionBulletAt n ga this k w = Some w'"
    using positionBulletAt_returns [of m ga this k w] n by auto
  then have s: "positionBulletStep ?md ga this k w = Some w'"
    using n by simp
  note good = good_markDirtyValues [of "Suc (Suc (Suc m))" ga this]
  have a: "map_option position (sprite (entryBullets w' ! k)) = Some (Some (fst xy), Some (snd xy))"
    if "resolvedPolygon this (entry w) = Some pg"
      and "projection ch (geoCoordinates (visualCentroid pg)) = Some xy" for pg xy
    using step_polygon [OF good assms(2,3,1) that s] .
  have b: "map_option position (sprite (entryBullets w' ! k)) = Some (Some (fst xy), Some (snd xy))"
    if "longitude (entry w) = Some lo" and "latitude (entry w) = Some la"
      and "resolvedLine this (entry w) = None" and "resolvedPolygon this (entry w) = None"
      and "projection ch (lo, la) = Some xy" for lo la xy
    using step_lonlat [OF good assms(2,3,1) that(4,3,1,2,5) s] .
  show ?thesis
    using w' a b by blast
qed

text \<open>
  A data item with \<open>polygonId = "p"\<close>, longitude 5 and latitude 6 is placed at the image of
  the centroid \<open>(-30, 40)\<close> of the last polygon held under \<open>"p"\<close>; with identifiers that
  no series holds it is placed at the image of \<open>(5, 6)\<close>.
\<close>

theorem placement_fallback_order_witness:
  "map_option (\<lambda>w'. map_option position (sprite (entryBullets w' ! 0)))
     (positionBulletAt 4 slope (sampleSeries duplicatePolygons) 0
        (sampleWorld (noSettings\<lparr>longitude := Some 5, latitude := Some 6, polygonId := Some ''p''\<rparr>))) =
     Some (Some (Some (- 60), Some (- 80)))
   \<and> map_option (\<lambda>w'. map_option position (sprite (entryBullets w' ! 0)))
     (positionBulletAt 4 slope (sampleSeries duplicatePolygons) 0
        (sampleWorld (noSettings\<lparr>longitude := Some 5, latitude := Some 6,
           lineId := Some ''zz'', polygonId := Some ''zz''\<rparr>))) =
     Some (Some (Some 10, Some (- 12)))"
proof -
  let ?S = "sampleSeries duplicatePolygons"
  let ?ch = "sampleChart duplicatePolygons"
  let ?A = "noSettings\<lparr>longitude := Some 5, latitude := Some 6, polygonId := Some ''p''\<rparr>"
  let ?B = "noSettings\<lparr>longitude := Some 5, latitude := Some 6,
           lineId := Some ''zz'', polygonId := Some ''zz''\<rparr>"
  have c: "chart ?S = Some ?ch" by simp
  have k: "0 < length (entryBullets (sampleWorld di))"
    and s: "sprite (entryBullets (sampleWorld di) ! 0) \<noteq> None" for di
    by (simp_all add: sampleWorld_def)
  have n: "4 \<le> (4::nat)" by simp
  have rpA: "resolvedPolygon ?S (entry (sampleWorld ?A)) = Some lagoon"
    by (simp add: resolvedPolygon_cases sampleWorld_def noSettings_def truthyString_def polygonItem_def)
  have imA: "projection ?ch (geoCoordinates (visualCentroid lagoon)) = Some (- 60, - 80)"
    by (simp add: sampleChart_def lagoon_def geoCoordinates_def)
  have rB: "resolvedPolygon ?S (entry (sampleWorld ?B)) = None"
    "resolvedLine ?S (entry (sampleWorld ?B)) = None"
    "longitude (entry (sampleWorld ?B)) = Some 5" "latitude (entry (sampleWorld ?B)) = Some 6"
    by (simp_all add: resolvedPolygon_cases resolvedLine_cases sampleWorld_def noSettings_def
          truthyString_def duplicatePolygons_def holding_def)
  have imB: "projection ?ch (5, 6) = Some (10, - 12)"
    by (simp add: sampleChart_def)
  obtain wA where wA: "positionBulletAt 4 slope ?S 0 (sampleWorld ?A) = Some wA"
    and pA: "map_option position (sprite (entryBullets wA ! 0)) = Some (Some (- 60), Some (- 80))"
    using placement_fallback_order [where w = "sampleWorld ?A" and ga = slope and k = 0, OF c k s n]
      rpA imA by fastforce
  obtain wB where wB: "positionBulletAt 4 slope ?S 0 (sampleWorld ?B) = Some wB"
    and pB: "map_option position (sprite (entryBullets wB ! 0)) = Some (Some 10, Some (- 12))"
    using placement_fallback_order [where w = "sampleWorld ?B" and ga = slope and k = 0, OF c k s n]
      rB imB by fastforce
  show ?thesis
    by (simp only: wA wB pA pB option.map)
qed

text \<open>
  Two line series hold the identifier \<open>"a"\<close>. The specification's resolver stops at the
  first, the equator; \<open>_positionBullet\<close> leaves the data item of the last series, the
  meridian, in \<open>lineDataItem\<close>.
\<close>

theorem first_match_counterexample:
  "map_option lineDataItem
     (entryOf (positionBullet slope (sampleSeries duplicateLines)
        (bulletOf (noSettings\<lparr>lineId := Some ''a''\<rparr>)) [])) \<noteq>
   Some (spec_resolveLineFirst ''a'' duplicateLines)"
proof -
  have "map_option lineDataItem
     (entryOf (positionBullet slope (sampleSeries duplicateLines)
        (bulletOf (noSettings\<lparr>lineId := Some ''a''\<rparr>)) [])) = Some (Some (lineItem meridian))"
    by (simp add: entryOf_run resolveLine_cases noSettings_def truthyString_def sampleChart_def)
  then show ?thesis
    using equator_meridian by (auto simp: lineItem_def)
qed

text \<open>
  \<^bold>\<open>C2.\<close> When an identifier (\<open>lineId\<close> or \<open>polygonId\<close>) is held by several series of
  the chart, the scan runs over the whole collection in its order, and the reference cached
  and the local \<open>line\<close> (\<open>polygon\<close>) are those of the last series of the matching kind
  that holds the identifier.
\<close>

theorem resolution_last_match:
  assumes "chart this = Some ch" and "sprite bullet = Some sp" and "dataItem sp = Some di"
  shows "(\<forall>lid. lineDataItem di = None \<and> lineId di = Some lid \<and> lid \<noteq> []
              \<and> lineMatches lid (series ch) \<noteq> [] \<longrightarrow>
            map_option lineDataItem (entryOf (positionBullet ga this bullet scans)) =
              Some (Some (last (lineMatches lid (series ch))))
            \<and> resolvedLine this di = mapLine (last (lineMatches lid (series ch))))
       \<and> (\<forall>pid. polygonDataItem di = None \<and> polygonId di = Some pid \<and> pid \<noteq> []
              \<and> polygonMatches pid (series ch) \<noteq> [] \<longrightarrow>
            map_option polygonDataItem (entryOf (positionBullet ga this bullet scans)) =
              Some (Some (last (polygonMatches pid (series ch))))
            \<and> resolvedPolygon this di = mapPolygon (last (polygonMatches pid (series ch))))"
  using assms
  by (auto simp: entryOf_run resolvedLine_def resolvedPolygon_def resolveLine_cases
        resolvePolygon_cases truthyString_def split: list.splits)

text \<open>With the duplicated identifiers \<open>"a"\<close> and \<open>"p"\<close>: the meridian and the lagoon, the last of each.\<close>

theorem resolution_last_match_witness:
  "map_option lineDataItem
     (entryOf (positionBullet slope (sampleSeries (duplicateLines @ duplicatePolygons))
        (bulletOf (noSettings\<lparr>lineId := Some ''a'', polygonId := Some ''p''\<rparr>)) [])) =
     Some (Some (lineItem meridian))
   \<and> map_option polygonDataItem
     (entryOf (positionBullet slope (sampleSeries (duplicateLines @ duplicatePolygons))
        (bulletOf (noSettings\<lparr>lineId := Some ''a'', polygonId := Some ''p''\<rparr>)) [])) =
     Some (Some (polygonItem lagoon))"
  using resolution_last_match [of "sampleSeries (duplicateLines @ duplicatePolygons)"
      "sampleChart (duplicateLines @ duplicatePolygons)"
      "bulletOf (noSettings\<lparr>lineId := Some ''a'', polygonId := Some ''p''\<rparr>)"
      "blankSprite (noSettings\<lparr>lineId := Some ''a'', polygonId := Some ''p''\<rparr>)"
      "noSettings\<lparr>lineId := Some ''a'', polygonId := Some ''p''\<rparr>" slope "[]"]
  by (simp add: noSettings_def)




text \<open>
  \<^bold>\<open>C4.\<close> Visibility of a placed sprite: when the clip path holds the geometry, the sprite
  is visible unless \<open>clipFront\<close> is true; when it does not, the sprite is visible unless
  \<open>clipBack\<close> is true.
\<close>

theorem clip_visibility:
  assumes "chart this = Some ch"
  shows "sprite_visible (positionBulletReal this sp geom coords) =
           Some (if geoPath ch geom then clipFront this \<noteq> Some True else clipBack this \<noteq> Some True)"
  using assms
  by (cases "clipFront this"; cases "clipBack this")
     (auto simp: positionBulletReal_def truthy_def Let_def split: option.splits)

text \<open>A point inside and a point outside the clip path, under \<open>clipBack\<close> alone and under \<open>clipFront\<close> alone.\<close>

theorem clip_visibility_witness:
  "sprite_visible (positionBulletReal (sampleSeries []) (blankSprite noSettings)
     (Point (- 5, 0)) (- 5, 0)) = Some True
   \<and> sprite_visible (positionBulletReal (sampleSeries []) (blankSprite noSettings)
     (Point (5, 0)) (5, 0)) = Some False
   \<and> sprite_visible (positionBulletReal ((sampleSeries [])\<lparr>clipFront := Some True, clipBack := Some False\<rparr>)
     (blankSprite noSettings) (Point (- 5, 0)) (- 5, 0)) = Some False
   \<and> sprite_visible (positionBulletReal ((sampleSeries [])\<lparr>clipFront := Some True, clipBack := Some False\<rparr>)
     (blankSprite noSettings) (Point (5, 0)) (5, 0)) = Some True"
proof -
  have c: "chart (sampleSeries []) = Some (sampleChart [])"
    and d: "chart ((sampleSeries [])\<lparr>clipFront := Some True, clipBack := Some False\<rparr>) =
              Some (sampleChart [])"
    by (simp_all add: sampleSeries_def)
  show ?thesis
    using clip_visibility [OF c, of "blankSprite noSettings" "Point (- 5, 0)" "(- 5, 0)"]
      clip_visibility [OF c, of "blankSprite noSettings" "Point (5, 0)" "(5, 0)"]
      clip_visibility [OF d, of "blankSprite noSettings" "Point (- 5, 0)" "(- 5, 0)"]
      clip_visibility [OF d, of "blankSprite noSettings" "Point (5, 0)" "(5, 0)"]
    by (simp add: sampleSeries_def sampleChart_def)
qed






text \<open>
  \<^bold>\<open>C7.\<close> For a \<open>MultiPoint\<close> geometry of \<open>N\<close> coordinates, \<open>_makeBullets\<close> makes, for
  each bullet function in turn, \<open>N\<close> bullets bound to the data item with the indices
  \<open>0, \<dots>, N - 1\<close>, so \<open>N\<close> times the number of bullet functions in all; where placement
  falls back on the geometry, the bullet of index \<open>i\<close> is placed at the projection of the
  coordinate of index \<open>i\<close>. For a \<open>Point\<close> geometry it makes one bullet, without index, for
  each bullet function.
\<close>

theorem multipoint_bullets:
  fixes di :: DataItem and this :: MapPointSeries
  shows "(\<forall>cs. geometry di = Some (MultiPoint cs) \<longrightarrow>
       makeBullets this di =
         concat (map (\<lambda>f. map (\<lambda>i. boundBullet di f (Some i)) [0 ..< length cs]) (bullets this))
       \<and> length (makeBullets this di) = length (bullets this) * length cs
       \<and> (\<forall>f \<in> set (bullets this). \<forall>i < length cs.
            bullet_index (boundBullet di f (Some i)) = Some i
            \<and> (\<forall>ch sp. chart this = Some ch \<and> sprite (f di) = Some sp
                 \<and> resolvedPolygon this di = None
                 \<and> (resolvedLine this di = None \<or> positionOnLine di = None)
                 \<and> (longitude di = None \<or> latitude di = None) \<longrightarrow>
                 map_option position
                   (markerOf (positionBullet ga this (boundBullet di f (Some i)) scans)) =
                   Some (projected ch (cs ! i) sp))))
   \<and> (\<forall>c. geometry di = Some (Point c) \<longrightarrow>
       makeBullets this di = map (\<lambda>f. boundBullet di f None) (bullets this)
       \<and> length (makeBullets this di) = length (bullets this))"
proof -
  have multi: "makeBullets this di =
         concat (map (\<lambda>f. map (\<lambda>i. boundBullet di f (Some i)) [0 ..< length cs]) (bullets this))
       \<and> length (makeBullets this di) = length (bullets this) * length cs"
    if "geometry di = Some (MultiPoint cs)" for cs
    using that by (simp add: makeBullets_multi length_concat_const)
  have idx: "bullet_index (boundBullet di f (Some i)) = Some i" for f i
    by (simp add: boundBullet_def Let_def)
  have point: "makeBullets this di = map (\<lambda>f. boundBullet di f None) (bullets this)
       \<and> length (makeBullets this di) = length (bullets this)"
    if "geometry di = Some (Point c)" for c
    using that by (simp add: makeBullets_point)
  show ?thesis
    using multi idx point multipoint_placement [of di _ _ this _ _ _ ga scans]
    by (intro conjI allI impI ballI) blast+
qed

text \<open>Three coordinates and two bullet functions give six bullets; the bullet of index 2 goes to the image of \<open>(5, 6)\<close>.\<close>

theorem multipoint_bullets_witness:
  "length (makeBullets (sampleSeries [])
     (noSettings\<lparr>geometry := Some (MultiPoint [(1, 2), (3, 4), (5, 6)])\<rparr>)) = 6
   \<and> map bullet_index (makeBullets (sampleSeries [])
     (noSettings\<lparr>geometry := Some (MultiPoint [(1, 2), (3, 4), (5, 6)])\<rparr>)) =
       [Some 0, Some 1, Some 2, Some 0, Some 1, Some 2]
   \<and> map_option position
       (markerOf (positionBullet slope (sampleSeries [])
          (boundBullet (noSettings\<lparr>geometry := Some (MultiPoint [(1, 2), (3, 4), (5, 6)])\<rparr>)
             plainBullet (Some 2)) [])) = Some (Some 10, Some (- 12))
   \<and> length (makeBullets (sampleSeries []) (noSettings\<lparr>geometry := Some (Point (1, 2))\<rparr>)) = 2"
proof -
  let ?m = "noSettings\<lparr>geometry := Some (MultiPoint [(1, 2), (3, 4), (5, 6)])\<rparr>"
  let ?p = "noSettings\<lparr>geometry := Some (Point (1, 2))\<rparr>"
  have b: "bullets (sampleSeries []) = [plainBullet, plainBullet]"
    by (simp add: sampleSeries_def)
  have u: "[0 ..< 3] = [0, 1, 2]"
    by (simp add: upt_rec)
  have pg: "resolvedPolygon (sampleSeries []) ?m = None"
    by (simp add: resolvedPolygon_def resolvePolygon_cases noSettings_def truthyString_def)
  have ln: "resolvedLine (sampleSeries []) ?m = None"
    by (simp add: resolvedLine_def resolveLine_cases noSettings_def truthyString_def)
  have s: "sprite (plainBullet ?m) = Some (blankSprite noSettings)"
    by (simp add: plainBullet_def)
  have g: "geometry ?m = Some (MultiPoint [(1, 2), (3, 4), (5, 6)])"
    by simp
  have mem: "plainBullet \<in> set (bullets (sampleSeries []))"
    by (simp add: b)
  have c: "chart (sampleSeries []) = Some (sampleChart [])"
    by (simp add: sampleSeries_def)
  have ll: "longitude ?m = None \<or> latitude ?m = None"
    by (simp add: noSettings_def)
  note multi = multipoint_bullets [of ?m "sampleSeries []" slope "[]", THEN conjunct1,
      rule_format, OF g]
  note point = multipoint_bullets [of ?p "sampleSeries []" slope "[]", THEN conjunct2,
      rule_format, of "(1, 2)"]
  have m0: "makeBullets (sampleSeries []) ?m =
      concat (map (\<lambda>f. map (\<lambda>i. boundBullet ?m f (Some i)) [0, Suc 0, Suc (Suc 0)]) [plainBullet, plainBullet])"
    using multi [THEN conjunct1] by (simp add: b upt_rec)
  have m1: "length (makeBullets (sampleSeries []) ?m) = 6"
    using multi [THEN conjunct2, THEN conjunct1] by (simp add: b)
  have m2: "map_option position
       (markerOf (positionBullet slope (sampleSeries []) (boundBullet ?m plainBullet (Some 2)) [])) =
       Some (projected (sampleChart []) ([(1, 2), (3, 4), (5, 6)] ! 2) (blankSprite noSettings))"
    using multi [THEN conjunct2, THEN conjunct2, rule_format, OF mem, of 2, THEN conjunct2,
        rule_format, of "sampleChart []" "blankSprite noSettings"] c s pg ln ll
    by simp
  have m3: "length (makeBullets (sampleSeries []) ?p) = 2"
    using point by (simp add: b)
  have w2: "map bullet_index (makeBullets (sampleSeries []) ?m) =
       [Some 0, Some 1, Some 2, Some 0, Some 1, Some 2]"
    by (simp add: m0 boundBullet_def Let_def eval_nat_numeral)
  have w3: "map_option position
       (markerOf (positionBullet slope (sampleSeries []) (boundBullet ?m plainBullet (Some 2)) [])) =
       Some (Some 10, Some (- 12))"
    by (simp add: m2 projected_def sampleChart_def)
  show ?thesis
    using m1 w2 w3 m3 by (intro conjI)
qed

text \<open>
  A shape whose only dirty attribute is \<open>fill\<close>, which is none of the wick coordinates: with
  the inherited step of \<open>Graphics\<close>, \<open>_beforeChanged\<close> sets \<open>_clear\<close>.
\<close>

theorem inherited_step_counterexample:
  "filter (isDirty fillOnly) wickKeys = [] \<and> \<not> clear fillOnly
   \<and> clear (beforeChanged graphicsStep fillOnly)"
  by (simp add: fillOnly_def sampleShape_def wickKeys_def isDirty_def beforeChanged_def
        graphicsStep_def Let_def)

text \<open>
  \<^bold>\<open>C8.\<close> \<open>_beforeChanged\<close> sets \<open>_clear\<close> when one of the eight wick coordinates is
  dirty, that is, has changed since the last pass. When none of them is dirty the override
  adds nothing to what the inherited \<open>_beforeChanged\<close> did: the shape, and \<open>_clear\<close> with
  it, is as the inherited step left it, and the inherited step sets the flag for
  attributes of its own.
\<close>

theorem wick_dirty_sets_clear:
  "(\<forall>k \<in> set wickKeys. isDirty (super_beforeChanged this) k \<longrightarrow>
       clear (beforeChanged super_beforeChanged this))
   \<and> ((\<forall>k \<in> set wickKeys. \<not> isDirty (super_beforeChanged this) k) \<longrightarrow>
       beforeChanged super_beforeChanged this = super_beforeChanged this)"
  by (auto simp: beforeChanged_def wickKeys_def Let_def)

text \<open>
  With the inherited step of \<open>Graphics\<close>: a shape with \<open>highY1\<close> dirty gets the flag; a
  shape with only \<open>orientation\<close> dirty is left as the inherited step leaves it, without
  the flag.
\<close>

theorem wick_dirty_sets_clear_witness:
  "isDirty sampleShape ''highY1'' \<and> \<not> clear sampleShape
   \<and> clear (beforeChanged graphicsStep sampleShape)
   \<and> beforeChanged graphicsStep orientationOnly = graphicsStep orientationOnly
   \<and> \<not> clear (beforeChanged graphicsStep orientationOnly)"
  using wick_dirty_sets_clear [of graphicsStep sampleShape]
    wick_dirty_sets_clear [of graphicsStep orientationOnly]
  by (simp add: wickKeys_def isDirty_def sampleShape_def orientationOnly_def graphicsStep_def)

text \<open>
  \<^bold>\<open>C9.\<close> \<open>_draw\<close> runs the inherited drawing first and then appends exactly four calls:
  \<open>moveTo (lowX0, lowY0)\<close>, \<open>lineTo (lowX1, lowY1)\<close>, \<open>moveTo (highX0, highY0)\<close>,
  \<open>lineTo (highX1, highY1)\<close>, each coordinate that is not set being 0. \<open>draw\<close> is a total
  function into shapes: no input, with missing coordinates or segments of length zero,
  makes it fail.
\<close>

theorem draw_wicks:
  "display (draw super_draw this) =
     (let t = super_draw this
      in display t @
         [MoveTo (case settings t ''lowX0'' of None \<Rightarrow> 0 | Some v \<Rightarrow> v)
                 (case settings t ''lowY0'' of None \<Rightarrow> 0 | Some v \<Rightarrow> v),
          LineTo (case settings t ''lowX1'' of None \<Rightarrow> 0 | Some v \<Rightarrow> v)
                 (case settings t ''lowY1'' of None \<Rightarrow> 0 | Some v \<Rightarrow> v),
          MoveTo (case settings t ''highX0'' of None \<Rightarrow> 0 | Some v \<Rightarrow> v)
                 (case settings t ''highY0'' of None \<Rightarrow> 0 | Some v \<Rightarrow> v),
          LineTo (case settings t ''highX1'' of None \<Rightarrow> 0 | Some v \<Rightarrow> v)
                 (case settings t ''highY1'' of None \<Rightarrow> 0 | Some v \<Rightarrow> v)])"
  by (simp add: draw_def Let_def moveTo_def lineTo_def get_def getOr_def)

text \<open>With \<open>lowX0 = 3\<close> alone set, the low wick starts at \<open>(3, 0)\<close> and every other coordinate is 0.\<close>

theorem draw_wicks_witness:
  "display (draw id sampleShape) = [ClosePath, MoveTo 3 0, LineTo 0 0, MoveTo 0 0, LineTo 0 0]"
  using draw_wicks [of id sampleShape]
  by (simp add: sampleShape_def)

text \<open>
  \<^bold>\<open>C10.\<close> When the projection has no image for the coordinate, \<open>_positionBulletReal\<close>
  still writes the visibility given by the clip path, and still writes the rotation when
  \<open>autoRotate\<close> is set, while \<open>x\<close> and \<open>y\<close> keep their values: the update is partial.
\<close>

theorem no_projection_partial_update:
  assumes "chart this = Some ch" and "projection ch coords = None"
  shows "sprite_x (positionBulletReal this sp geom coords) = sprite_x sp
       \<and> sprite_y (positionBulletReal this sp geom coords) = sprite_y sp
       \<and> sprite_visible (positionBulletReal this sp geom coords) =
           Some (if geoPath ch geom then \<not> truthy (clipFront this) else \<not> truthy (clipBack this))
       \<and> sprite_rotation (positionBulletReal this sp geom coords) =
           (case dataItem sp of
              None \<Rightarrow> sprite_rotation sp
            | Some di \<Rightarrow> if truthy (autoRotate di) then Some (getOr (autoRotateAngle di) 0)
                         else sprite_rotation sp)"
  using assms
  by (auto simp: positionBulletReal_def Let_def split: option.splits)

text \<open>Latitude 85 again, with \<open>autoRotate\<close> set and a cached angle of 30.\<close>

theorem no_projection_partial_update_witness:
  "projection (sampleChart []) (0, 85) = None
   \<and> sprite_x (positionBulletReal (sampleSeries [])
        (blankSprite (noSettings\<lparr>autoRotate := Some True, autoRotateAngle := Some 30\<rparr>))
        (Point (0, 85)) (0, 85)) = Some 1
   \<and> sprite_visible (positionBulletReal (sampleSeries [])
        (blankSprite (noSettings\<lparr>autoRotate := Some True, autoRotateAngle := Some 30\<rparr>))
        (Point (0, 85)) (0, 85)) = Some True
   \<and> sprite_rotation (positionBulletReal (sampleSeries [])
        (blankSprite (noSettings\<lparr>autoRotate := Some True, autoRotateAngle := Some 30\<rparr>))
        (Point (0, 85)) (0, 85)) = Some 30"
proof -
  have c: "chart (sampleSeries []) = Some (sampleChart [])"
    by (simp add: sampleSeries_def)
  have p: "projection (sampleChart []) (0, 85) = None"
    by (simp add: sampleChart_def)
  show ?thesis
    using no_projection_partial_update [OF c p,
        of "blankSprite (noSettings\<lparr>autoRotate := Some True, autoRotateAngle := Some 30\<rparr>)"
           "Point (0, 85)"] p
    by (simp add: blankSprite_def sampleSeries_def sampleChart_def truthy_def getOr_def)
qed

end
